theory Spec2Isabelle
  imports Main
begin

section \<open>Cross-validated transfer error (mvpa/algorithms/cvtranserror.py)\<close>

text \<open>
  The development embeds \<^verbatim>\<open>CrossValidatedTransferError._call\<close>. Python objects that
  are shared and mutated (the TransferError instances and their classifiers) live in an
  explicit store indexed by addresses; a raised exception is a value, and the store and
  the engine survive it, since a Python \<^verbatim>\<open>raise\<close> undoes no assignment.
\<close>

subsection \<open>Exceptions\<close>

text \<open>
  The exceptions the method can end with. The first four are raised by statements of
  \<^verbatim>\<open>_call\<close> itself (a missing dictionary key, an index beyond a tuple, a local read
  before its first assignment, a missing attribute), \<open>ValueError\<close> by the state
  collection. The last three carry whatever a collaborator raised, labelled with the call
  that raised it.
\<close>

datatype error =
    KeyError
  | IndexError
  | UnboundLocalError
  | AttributeError
  | ValueError
  | EvaluationError string
  | HarvestError string
  | CombinerError string

subsection \<open>Datasets and folds\<close>

type_synonym addr = nat
type_synonym labels_map_t = "(string \<times> int) list"

text \<open>
  An attribute that an object may lack: \<open>NoAttribute\<close> when reading it raises (and
  \<^verbatim>\<open>hasattr\<close> is false), \<open>Attribute x\<close> when it holds \<open>x\<close>, which may be Python's \<^verbatim>\<open>None\<close>.
\<close>

datatype 'a attribute = NoAttribute | Attribute 'a

text \<open>
  A dataset as \<^verbatim>\<open>_call\<close> reads it: \<^verbatim>\<open>origids\<close>, \<^verbatim>\<open>labels_map\<close> and the entry
  \<^verbatim>\<open>_dsattr['lastsplit']\<close> (\<open>None\<close>: the key is missing). The samples are opaque to the
  engine.
\<close>

record 'd dataset =
  origids :: "nat list"
  labels_map :: "labels_map_t option attribute"
  dsattr_lastsplit :: "bool option"
  samples :: 'd

text \<open>A fold is the tuple the splitter yields; an element is a dataset or Python's \<^verbatim>\<open>None\<close>.\<close>

type_synonym 'd split = "'d dataset option list"

subsection \<open>Summary objects, classifiers, TransferError instances and the store\<close>

text \<open>An instance of the classifier's \<^verbatim>\<open>_summaryClass\<close>, with its \<^verbatim>\<open>labels_map\<close> attribute.\<close>

record 'm summary =
  stats :: 'm
  sm_labels_map :: "labels_map_t option"

text \<open>
  A classifier object. \<open>testdataset\<close> is \<open>NoAttribute\<close> when the object has no such
  attribute, \<open>Attribute None\<close> when the attribute holds Python's \<^verbatim>\<open>None\<close>, and
  \<open>Attribute (Some ds)\<close> when it is bound to a dataset. \<open>summaryClass\<close> is the object that
  calling \<^verbatim>\<open>clf._summaryClass()\<close> builds; \<open>trained\<close> is the classifier's own state.
\<close>

record ('m, 'd, 'c) clf_obj =
  testdataset :: "'d dataset option attribute"
  summaryClass :: "'m summary"
  trained :: 'c

text \<open>
  A TransferError object: the reference to its classifier and its state collection, that
  is, the set of enabled state names, the stack kept by \<^verbatim>\<open>_changeTemporarily\<close>, and the
  values of the three state variables the engine reads.
\<close>

record ('r, 'm) terr_obj =
  clf :: addr
  te_enabled :: "string set"
  te_stored :: "string set list"
  te_samples_error :: "(nat \<times> 'r) list"
  te_confusion :: "'m summary"
  te_training_confusion :: "'m summary"

record ('r, 'm, 'd, 'c) heap =
  terrs :: "addr \<Rightarrow> ('r, 'm) terr_obj"
  next_terr :: addr
  clfs :: "addr \<Rightarrow> ('m, 'd, 'c) clf_obj"
  next_clf :: addr

subsection \<open>Collaborators outside the source file\<close>

text \<open>
  What one call \<^verbatim>\<open>transerror(testdataset, trainingdataset)\<close> computes: the error value or
  the exception, the three diagnostics, and the classifier's new state.
\<close>

record ('r, 'm, 'c) eval_out =
  eo_result :: "string + 'r"
  eo_samples_error :: "(nat \<times> 'r) list"
  eo_confusion :: "'m summary"
  eo_training_confusion :: "'m summary"
  eo_trained :: 'c

text \<open>
  The behaviour of the classes the engine calls and the file does not define:
  \<open>evaluate\<close> is \<^verbatim>\<open>TransferError.__call__\<close>, given the classifier object the instance
  refers to, the test partition and the training partition; \<open>untrain\<close> is
  \<^verbatim>\<open>TransferError.untrain\<close> on the classifier's state; \<open>iadd\<close> is the summary class's
  \<^verbatim>\<open>__iadd__\<close>.
\<close>

record ('r, 'm, 'd, 'c) collaborators =
  evaluate :: "('m, 'd, 'c) clf_obj \<Rightarrow> 'd dataset option \<Rightarrow> 'd dataset option
                 \<Rightarrow> ('r, 'm, 'c) eval_out"
  untrain :: "'c \<Rightarrow> 'c"
  iadd :: "'m \<Rightarrow> 'm \<Rightarrow> 'm"

text \<open>
  Modelled from the spec: \<^verbatim>\<open>StateCollection._changeTemporarily(enable_states=...)\<close> of
  mvpa/misc/state.py, which is not part of the source file. It records the enablement in
  force and enables the given names on top of it.
\<close>

definition changeTemporarily :: "string list \<Rightarrow> ('r, 'm) terr_obj \<Rightarrow> ('r, 'm) terr_obj" where
  "changeTemporarily enable_states t =
     t\<lparr>te_stored := te_enabled t # te_stored t,
       te_enabled := te_enabled t \<union> set enable_states\<rparr>"

text \<open>
  Modelled from the spec: \<^verbatim>\<open>StateCollection._resetEnabledTemporarily()\<close> of
  mvpa/misc/state.py. It puts the most recently recorded enablement back; with nothing
  recorded it raises.
\<close>

definition resetEnabledTemporarily :: "('r, 'm) terr_obj \<Rightarrow> error + ('r, 'm) terr_obj" where
  "resetEnabledTemporarily t =
     (case te_stored t of
        [] \<Rightarrow> Inl ValueError
      | e # st \<Rightarrow> Inr (t\<lparr>te_enabled := e, te_stored := st\<rparr>))"

text \<open>
  Modelled from the spec: \<^verbatim>\<open>deepcopy\<close> of mvpa/support/copy.py applied to a TransferError.
  The copy is a new TransferError object that refers to a new classifier object; both
  start with the contents of the objects they were copied from.
\<close>

definition deepcopy :: "addr \<Rightarrow> ('r, 'm, 'd, 'c) heap \<Rightarrow> addr \<times> ('r, 'm, 'd, 'c) heap" where
  "deepcopy a h =
     (let t = terrs h a; a' = next_terr h; c' = next_clf h
      in (a', h\<lparr>terrs := (terrs h)(a' := t\<lparr>clf := c'\<rparr>), next_terr := Suc a',
                clfs := (clfs h)(c' := clfs h (clf t)), next_clf := Suc c'\<rparr>))"

text \<open>
  Modelled from the spec: one call of a TransferError instance (mvpa/clfs/transerror.py).
  The instance at address \<open>a\<close> evaluates with its own classifier, whose state the call
  updates; a state variable of the instance is assigned only while it is enabled; the
  enablement itself and the classifier's \<^verbatim>\<open>testdataset\<close> attribute are read, not written.
\<close>

definition call_transerror ::
  "('r, 'm, 'd, 'c) collaborators \<Rightarrow> addr \<Rightarrow> 'd dataset option \<Rightarrow> 'd dataset option
     \<Rightarrow> ('r, 'm, 'd, 'c) heap \<Rightarrow> (string + 'r) \<times> ('r, 'm, 'd, 'c) heap" where
  "call_transerror K a test train h =
     (let t = terrs h a;
          c = clf t;
          out = evaluate K (clfs h c) test train;
          h1 = h\<lparr>clfs := (clfs h)(c := (clfs h c)\<lparr>trained := eo_trained out\<rparr>)\<rparr>
      in case eo_result out of
           Inl msg \<Rightarrow> (Inl msg, h1)
         | Inr r \<Rightarrow>
             (Inr r,
              h1\<lparr>terrs := (terrs h1)(a := t
                   \<lparr>te_samples_error :=
                      (if ''samples_error'' \<in> te_enabled t then eo_samples_error out
                       else te_samples_error t),
                    te_confusion :=
                      (if ''confusion'' \<in> te_enabled t then eo_confusion out
                       else te_confusion t),
                    te_training_confusion :=
                      (if ''training_confusion'' \<in> te_enabled t
                       then eo_training_confusion out
                       else te_training_confusion t)\<rparr>)\<rparr>))"

subsection \<open>The engine\<close>

text \<open>
  What the harvesting hook is handed for a fold: the bindings made in the loop body.
\<close>

record ('r, 'd) fold_locals =
  fl_split :: "'d split"
  fl_transerror :: addr
  fl_result :: 'r

text \<open>
  The engine object (\<^verbatim>\<open>self\<close>): the names of its enabled state variables, their values,
  and the private attributes set by \<^verbatim>\<open>__init__\<close>. A state variable that is assigned while
  disabled keeps the value it had. \<open>harvest\<close> stands for \<^verbatim>\<open>Harvestable._harvest\<close> as
  configured by \<^verbatim>\<open>harvest_attribs\<close> and \<^verbatim>\<open>copy_attribs\<close>, \<open>harvested\<close> for what it has collected.
\<close>

record ('r, 'm, 'd, 'h, 'v) engine =
  enabled :: "string set"
  results :: "'r list"
  splits :: "'d split list"
  transerrors :: "addr list"
  confusion :: "'m summary"
  training_confusion :: "'m summary"
  samples_error :: "nat \<rightharpoonup> 'r list"
  splitter :: "'d dataset \<Rightarrow> 'd split list"
  combiner :: "'r list \<Rightarrow> string + 'v"
  transerror :: addr
  expose_testdataset :: bool
  harvest :: "('r, 'd) fold_locals \<Rightarrow> 'h \<Rightarrow> string + 'h"
  harvested :: 'h

definition isEnabled :: "string \<Rightarrow> ('r, 'm, 'd, 'h, 'v) engine \<Rightarrow> bool" where
  "isEnabled state_var e = (state_var \<in> enabled e)"

text \<open>
  The frame of one activation of \<^verbatim>\<open>_call\<close>: the engine, the store, and the locals.
  A local that may be read before it is bound is an option.
\<close>

record ('r, 'm, 'd, 'c, 'h, 'v) frame =
  self :: "('r, 'm, 'd, 'h, 'v) engine"
  heap :: "('r, 'm, 'd, 'c) heap"
  results_v :: "'r list"
  clf_v :: addr
  expose_testdataset_v :: bool
  terr_enable :: "string list"
  clf_hastestdataset :: bool
  transerror_v :: "addr option"
  result_v :: "'r option"

type_synonym ('r, 'm, 'd, 'c, 'h, 'v) stmt =
  "('r, 'm, 'd, 'c, 'h, 'v) frame \<Rightarrow> error option \<times> ('r, 'm, 'd, 'c, 'h, 'v) frame"

text \<open>Statement sequencing: the second statement runs only if the first did not raise.\<close>

definition seq ::
  "('r, 'm, 'd, 'c, 'h, 'v) stmt \<Rightarrow> ('r, 'm, 'd, 'c, 'h, 'v) stmt
     \<Rightarrow> ('r, 'm, 'd, 'c, 'h, 'v) stmt" where
  "seq f g s = (case f s of (None, s') \<Rightarrow> g s' | (Some e, s') \<Rightarrow> (Some e, s'))"

text \<open>\<^verbatim>\<open>split[i]\<close> on the yielded tuple.\<close>

definition item :: "'d split \<Rightarrow> nat \<Rightarrow> error + 'd dataset option" where
  "item split i = (if i < length split then Inr (split ! i) else Inl IndexError)"

subsection \<open>Before the loop (lines 126 to 158)\<close>

text \<open>
  The locals are bound, each enabled state variable of the engine is charged with its
  initial value, the requested states are enabled in the child TransferError, and the
  child is untrained when \<^verbatim>\<open>transerrors\<close> is enabled.
\<close>

definition prologue ::
  "('r, 'm, 'd, 'c) collaborators \<Rightarrow> 'd dataset \<Rightarrow> ('r, 'm, 'd, 'h, 'v) engine
     \<Rightarrow> ('r, 'm, 'd, 'c) heap \<Rightarrow> ('r, 'm, 'd, 'c, 'h, 'v) frame" where
  "prologue K ds e h =
     (let c = clf (terrs h (transerror e));
          te = filter (\<lambda>state_var. isEnabled state_var e)
                 [''confusion'', ''training_confusion'', ''samples_error''];
          sc = summaryClass (clfs h c);
          e1 = e\<lparr>splits := (if isEnabled ''splits'' e then [] else splits e),
                 confusion := (if isEnabled ''confusion'' e then sc else confusion e),
                 training_confusion :=
                   (if isEnabled ''training_confusion'' e then sc else training_confusion e),
                 transerrors := (if isEnabled ''transerrors'' e then [] else transerrors e),
                 samples_error :=
                   (if isEnabled ''samples_error'' e
                    then map_of (map (\<lambda>i. (i, [])) (origids ds))
                    else samples_error e)\<rparr>;
          h1 = (if length te \<noteq> 0
                then h\<lparr>terrs := (terrs h)(transerror e :=
                          changeTemporarily te (terrs h (transerror e)))\<rparr>
                else h);
          h2 = (if isEnabled ''transerrors'' e
                then h1\<lparr>clfs := (clfs h1)(c := (clfs h1 c)\<lparr>trained :=
                          untrain K (trained (clfs h1 c))\<rparr>)\<rparr>
                else h1)
      in \<lparr>self = e1, heap = h2, results_v = [], clf_v = c,
          expose_testdataset_v = expose_testdataset e, terr_enable = te,
          clf_hastestdataset = (testdataset (clfs h c) \<noteq> NoAttribute),
          transerror_v = None, result_v = None\<rparr>)"

subsection \<open>The loop body (lines 162 to 221)\<close>

text \<open>Lines 164 and 165: the fold is stored when \<^verbatim>\<open>splits\<close> is enabled.\<close>

definition store_split :: "'d split \<Rightarrow> ('r, 'm, 'd, 'c, 'h, 'v) stmt" where
  "store_split split s =
     (if isEnabled ''splits'' (self s)
      then (None, s\<lparr>self := (self s)\<lparr>splits := splits (self s) @ [split]\<rparr>\<rparr>)
      else (None, s))"

text \<open>
  Lines 170 to 174: the marker of the first element of the fold that is not \<^verbatim>\<open>None\<close>;
  \<open>Inr None\<close> when every element is \<^verbatim>\<open>None\<close>, \<open>KeyError\<close> when that dataset has no marker.
\<close>

fun find_lastsplit :: "'d split \<Rightarrow> error + bool option" where
  "find_lastsplit [] = Inr None"
| "find_lastsplit (None # rest) = find_lastsplit rest"
| "find_lastsplit (Some ds # rest) =
     (case dsattr_lastsplit ds of None \<Rightarrow> Inl KeyError | Some b \<Rightarrow> Inr (Some b))"

text \<open>
  Lines 167 to 183: the instance that will evaluate the fold is bound to the local
  \<^verbatim>\<open>transerror\<close>.
\<close>

definition select_transerror :: "'d split \<Rightarrow> ('r, 'm, 'd, 'c, 'h, 'v) stmt" where
  "select_transerror split s =
     (if isEnabled ''transerrors'' (self s)
      then (case find_lastsplit split of
              Inl err \<Rightarrow> (Some err, s)
            | Inr lastsplit \<Rightarrow>
                (if lastsplit = Some True
                 then (None, s\<lparr>transerror_v := Some (transerror (self s))\<rparr>)
                 else (case deepcopy (transerror (self s)) (heap s) of
                         (a, h) \<Rightarrow> (None, s\<lparr>heap := h, transerror_v := Some a\<rparr>))))
      else (None, s\<lparr>transerror_v := Some (transerror (self s))\<rparr>))"

text \<open>Assignment to the \<^verbatim>\<open>testdataset\<close> attribute of the classifier bound to \<^verbatim>\<open>clf\<close>.\<close>

definition set_testdataset ::
  "'d dataset option \<Rightarrow> ('r, 'm, 'd, 'c, 'h, 'v) frame \<Rightarrow> ('r, 'm, 'd, 'c, 'h, 'v) frame" where
  "set_testdataset v s =
     s\<lparr>heap := (heap s)\<lparr>clfs := (clfs (heap s))(clf_v s :=
                  (clfs (heap s) (clf_v s))\<lparr>testdataset := Attribute v\<rparr>)\<rparr>\<rparr>"

text \<open>Lines 186 to 188.\<close>

definition bind_testdataset :: "'d split \<Rightarrow> ('r, 'm, 'd, 'c, 'h, 'v) stmt" where
  "bind_testdataset split s =
     (if clf_hastestdataset s \<and> expose_testdataset_v s
      then (case item split 1 of
              Inl err \<Rightarrow> (Some err, s)
            | Inr test \<Rightarrow> (None, set_testdataset test s))
      else (None, s))"

text \<open>Line 191: \<^verbatim>\<open>result = transerror(split[1], split[0])\<close>.\<close>

definition run_the_beast ::
  "('r, 'm, 'd, 'c) collaborators \<Rightarrow> 'd split \<Rightarrow> ('r, 'm, 'd, 'c, 'h, 'v) stmt" where
  "run_the_beast K split s =
     (case transerror_v s of
        None \<Rightarrow> (Some UnboundLocalError, s)
      | Some a \<Rightarrow>
          (case item split 1 of
             Inl err \<Rightarrow> (Some err, s)
           | Inr test \<Rightarrow>
               (case item split 0 of
                  Inl err \<Rightarrow> (Some err, s)
                | Inr train \<Rightarrow>
                    (case call_transerror K a test train (heap s) of
                       (Inl msg, h) \<Rightarrow> (Some (EvaluationError msg), s\<lparr>heap := h\<rparr>)
                     | (Inr r, h) \<Rightarrow> (None, s\<lparr>heap := h, result_v := Some r\<rparr>)))))"

text \<open>Lines 194 and 195.\<close>

definition unbind_testdataset :: "('r, 'm, 'd, 'c, 'h, 'v) stmt" where
  "unbind_testdataset s =
     (if clf_hastestdataset s \<and> expose_testdataset_v s
      then (None, set_testdataset None s)
      else (None, s))"

text \<open>Line 198: \<^verbatim>\<open>self._harvest(locals())\<close>.\<close>

definition harvest_locals :: "'d split \<Rightarrow> ('r, 'm, 'd, 'c, 'h, 'v) stmt" where
  "harvest_locals split s =
     (case transerror_v s of
        None \<Rightarrow> (Some UnboundLocalError, s)
      | Some a \<Rightarrow>
          (case result_v s of
             None \<Rightarrow> (Some UnboundLocalError, s)
           | Some r \<Rightarrow>
               (case harvest (self s)
                       \<lparr>fl_split = split, fl_transerror = a, fl_result = r\<rparr>
                       (harvested (self s)) of
                  Inl msg \<Rightarrow> (Some (HarvestError msg), s)
                | Inr hv \<Rightarrow> (None, s\<lparr>self := (self s)\<lparr>harvested := hv\<rparr>\<rparr>))))"

text \<open>Lines 202 and 203.\<close>

definition store_transerror :: "('r, 'm, 'd, 'c, 'h, 'v) stmt" where
  "store_transerror s =
     (if isEnabled ''transerrors'' (self s)
      then (case transerror_v s of
              None \<Rightarrow> (Some UnboundLocalError, s)
            | Some a \<Rightarrow>
                (None, s\<lparr>self := (self s)\<lparr>transerrors := transerrors (self s) @ [a]\<rparr>\<rparr>))
      else (None, s))"

text \<open>
  Lines 208 to 210: each item of the child's per-sample errors is appended to the list
  stored under its key; a key the dictionary lacks raises, the earlier items stay appended.
\<close>

fun append_samples ::
  "(nat \<times> 'r) list \<Rightarrow> (nat \<rightharpoonup> 'r list) \<Rightarrow> error option \<times> (nat \<rightharpoonup> 'r list)" where
  "append_samples [] m = (None, m)"
| "append_samples ((k, v) # kvs) m =
     (case m k of
        None \<Rightarrow> (Some KeyError, m)
      | Some vs \<Rightarrow> append_samples kvs (m(k \<mapsto> vs @ [v])))"

text \<open>Lines 207 to 210.\<close>

definition pull_samples_error :: "('r, 'm, 'd, 'c, 'h, 'v) stmt" where
  "pull_samples_error s =
     (if isEnabled ''samples_error'' (self s)
      then (case transerror_v s of
              None \<Rightarrow> (Some UnboundLocalError, s)
            | Some a \<Rightarrow>
                (case append_samples (te_samples_error (terrs (heap s) a))
                        (samples_error (self s)) of
                   (r, m) \<Rightarrow> (r, s\<lparr>self := (self s)\<lparr>samples_error := m\<rparr>\<rparr>)))
      else (None, s))"

text \<open>Lines 213 to 216, for \<^verbatim>\<open>confusion\<close> and then for \<^verbatim>\<open>training_confusion\<close>.\<close>

definition pull_confusion ::
  "('r, 'm, 'd, 'c) collaborators \<Rightarrow> ('r, 'm, 'd, 'c, 'h, 'v) stmt" where
  "pull_confusion K s =
     (if isEnabled ''confusion'' (self s)
      then (case transerror_v s of
              None \<Rightarrow> (Some UnboundLocalError, s)
            | Some a \<Rightarrow>
                (None, s\<lparr>self := (self s)\<lparr>confusion := (confusion (self s))
                   \<lparr>stats := iadd K (stats (confusion (self s)))
                               (stats (te_confusion (terrs (heap s) a)))\<rparr>\<rparr>\<rparr>))
      else (None, s))"

definition pull_training_confusion ::
  "('r, 'm, 'd, 'c) collaborators \<Rightarrow> ('r, 'm, 'd, 'c, 'h, 'v) stmt" where
  "pull_training_confusion K s =
     (if isEnabled ''training_confusion'' (self s)
      then (case transerror_v s of
              None \<Rightarrow> (Some UnboundLocalError, s)
            | Some a \<Rightarrow>
                (None, s\<lparr>self := (self s)\<lparr>training_confusion := (training_confusion (self s))
                   \<lparr>stats := iadd K (stats (training_confusion (self s)))
                               (stats (te_training_confusion (terrs (heap s) a)))\<rparr>\<rparr>\<rparr>))
      else (None, s))"

text \<open>Line 221: \<^verbatim>\<open>results.append(result)\<close>.\<close>

definition append_result :: "('r, 'm, 'd, 'c, 'h, 'v) stmt" where
  "append_result s =
     (case result_v s of
        None \<Rightarrow> (Some UnboundLocalError, s)
      | Some r \<Rightarrow> (None, s\<lparr>results_v := results_v s @ [r]\<rparr>))"

text \<open>The body of the \<^verbatim>\<open>for\<close> loop, statement by statement.\<close>

definition fold_body ::
  "('r, 'm, 'd, 'c) collaborators \<Rightarrow> 'd split \<Rightarrow> ('r, 'm, 'd, 'c, 'h, 'v) stmt" where
  "fold_body K split =
     seq (store_split split)
    (seq (select_transerror split)
    (seq (bind_testdataset split)
    (seq (run_the_beast K split)
    (seq unbind_testdataset
    (seq (harvest_locals split)
    (seq store_transerror
    (seq pull_samples_error
    (seq (pull_confusion K)
    (seq (pull_training_confusion K)
         append_result)))))))))"

text \<open>Line 161: the loop over the folds the splitter produced; it stops at the first raise.\<close>

fun run_folds ::
  "('r, 'm, 'd, 'c) collaborators \<Rightarrow> 'd split list \<Rightarrow> ('r, 'm, 'd, 'c, 'h, 'v) stmt" where
  "run_folds K [] s = (None, s)"
| "run_folds K (split # rest) s =
     (case fold_body K split s of
        (None, s') \<Rightarrow> run_folds K rest s'
      | (Some err, s') \<Rightarrow> (Some err, s'))"

subsection \<open>After the loop (lines 223 to 242)\<close>

text \<open>Line 224: \<^verbatim>\<open>self.__transerror = transerror\<close>.\<close>

definition rebind_transerror :: "('r, 'm, 'd, 'c, 'h, 'v) stmt" where
  "rebind_transerror s =
     (case transerror_v s of
        None \<Rightarrow> (Some UnboundLocalError, s)
      | Some a \<Rightarrow> (None, s\<lparr>self := (self s)\<lparr>transerror := a\<rparr>\<rparr>))"

text \<open>Lines 227 and 228.\<close>

definition restore_states :: "('r, 'm, 'd, 'c, 'h, 'v) stmt" where
  "restore_states s =
     (if length (terr_enable s) \<noteq> 0
      then (case resetEnabledTemporarily (terrs (heap s) (transerror (self s))) of
              Inl err \<Rightarrow> (Some err, s)
            | Inr t \<Rightarrow>
                (None, s\<lparr>heap := (heap s)\<lparr>terrs :=
                           (terrs (heap s))(transerror (self s) := t)\<rparr>\<rparr>))
      else (None, s))"

text \<open>Line 230: \<^verbatim>\<open>self.states.results = results\<close>.\<close>

definition store_results :: "('r, 'm, 'd, 'c, 'h, 'v) stmt" where
  "store_results s =
     (if isEnabled ''results'' (self s)
      then (None, s\<lparr>self := (self s)\<lparr>results := results_v s\<rparr>\<rparr>)
      else (None, s))"

text \<open>Lines 235 to 238, the body of the \<^verbatim>\<open>try\<close>.\<close>

definition provide_confusion_labels :: "'d dataset \<Rightarrow> ('r, 'm, 'd, 'c, 'h, 'v) stmt" where
  "provide_confusion_labels ds s =
     (if isEnabled ''confusion'' (self s)
      then (case labels_map ds of
              NoAttribute \<Rightarrow> (Some AttributeError, s)
            | Attribute lm \<Rightarrow>
                (None, s\<lparr>self := (self s)\<lparr>confusion :=
                           (confusion (self s))\<lparr>sm_labels_map := lm\<rparr>\<rparr>\<rparr>))
      else (None, s))"

definition provide_training_confusion_labels ::
  "'d dataset \<Rightarrow> ('r, 'm, 'd, 'c, 'h, 'v) stmt" where
  "provide_training_confusion_labels ds s =
     (if isEnabled ''training_confusion'' (self s)
      then (case labels_map ds of
              NoAttribute \<Rightarrow> (Some AttributeError, s)
            | Attribute lm \<Rightarrow>
                (None, s\<lparr>self := (self s)\<lparr>training_confusion :=
                           (training_confusion (self s))\<lparr>sm_labels_map := lm\<rparr>\<rparr>\<rparr>))
      else (None, s))"

definition provide_labels_map :: "'d dataset \<Rightarrow> ('r, 'm, 'd, 'c, 'h, 'v) stmt" where
  "provide_labels_map ds =
     seq (provide_confusion_labels ds) (provide_training_confusion_labels ds)"

text \<open>Lines 234 to 240: \<^verbatim>\<open>try: ... except: pass\<close>.\<close>

definition try_except_pass ::
  "('r, 'm, 'd, 'c, 'h, 'v) stmt \<Rightarrow> ('r, 'm, 'd, 'c, 'h, 'v) stmt" where
  "try_except_pass f s = (None, snd (f s))"

subsection \<open>The method\<close>

text \<open>Everything up to and including line 230.\<close>

definition cvte_main ::
  "('r, 'm, 'd, 'c) collaborators \<Rightarrow> ('r, 'm, 'd, 'h, 'v) engine \<Rightarrow> ('r, 'm, 'd, 'c) heap
     \<Rightarrow> 'd dataset \<Rightarrow> error option \<times> ('r, 'm, 'd, 'c, 'h, 'v) frame" where
  "cvte_main K e h ds =
     seq (run_folds K (splitter e ds))
    (seq rebind_transerror
    (seq restore_states
         store_results)) (prologue K ds e h)"

text \<open>Line 242: \<^verbatim>\<open>return self.__combiner(results)\<close>.\<close>

definition return_combined ::
  "('r, 'm, 'd, 'c, 'h, 'v) frame
     \<Rightarrow> (error + 'v) \<times> ('r, 'm, 'd, 'h, 'v) engine \<times> ('r, 'm, 'd, 'c) heap" where
  "return_combined s =
     (case combiner (self s) (results_v s) of
        Inl msg \<Rightarrow> (Inl (CombinerError msg), self s, heap s)
      | Inr v \<Rightarrow> (Inr v, self s, heap s))"

text \<open>
  \<^verbatim>\<open>CrossValidatedTransferError._call(self, dataset)\<close>: the value returned or the exception
  raised, with the engine and the store as the call leaves them.
\<close>

definition cvte_call ::
  "('r, 'm, 'd, 'c) collaborators \<Rightarrow> ('r, 'm, 'd, 'h, 'v) engine \<Rightarrow> ('r, 'm, 'd, 'c) heap
     \<Rightarrow> 'd dataset
     \<Rightarrow> (error + 'v) \<times> ('r, 'm, 'd, 'h, 'v) engine \<times> ('r, 'm, 'd, 'c) heap" where
  "cvte_call K e h ds =
     (case cvte_main K e h ds of
        (Some err, s) \<Rightarrow> (Inl err, self s, heap s)
      | (None, s) \<Rightarrow>
          (case try_except_pass (provide_labels_map ds) s of
             (Some err, s') \<Rightarrow> (Inl err, self s', heap s')
           | (None, s') \<Rightarrow> return_combined s'))"

subsection \<open>A small configuration to run the method on\<close>

text \<open>
  A dataset's samples are a single number. The classifier remembers the number it was
  last trained on; evaluation trains on the training partition when there is one, uses
  what the classifier remembers otherwise, and reports the difference to the test
  partition's number. It raises when there is no test partition or its number is zero.
\<close>

definition ex_summary :: "nat \<Rightarrow> nat summary" where
  "ex_summary n = \<lparr>stats = n, sm_labels_map = None\<rparr>"

definition ex_evaluate ::
  "(nat, nat, nat) clf_obj \<Rightarrow> nat dataset option \<Rightarrow> nat dataset option \<Rightarrow> (int, nat, nat) eval_out" where
  "ex_evaluate c test train =
     (let w = (case train of Some ds \<Rightarrow> samples ds | None \<Rightarrow> trained c)
      in \<lparr>eo_result =
            (case test of
               None \<Rightarrow> Inl ''no test dataset''
             | Some t \<Rightarrow> (if samples t = 0 then Inl ''empty test dataset''
                          else Inr (int (samples t) - int w))),
          eo_samples_error =
            (case test of None \<Rightarrow> []
             | Some t \<Rightarrow> map (\<lambda>i. (i, int (samples t) - int w)) (origids t)),
          eo_confusion = ex_summary 1,
          eo_training_confusion = ex_summary 2,
          eo_trained = w\<rparr>)"

definition ex_K :: "(int, nat, nat, nat) collaborators" where
  "ex_K = \<lparr>evaluate = ex_evaluate, untrain = (\<lambda>_. 0), iadd = (+)\<rparr>"

definition ex_ds :: "nat list \<Rightarrow> bool \<Rightarrow> nat \<Rightarrow> nat dataset" where
  "ex_ds ids l x =
     \<lparr>origids = ids, labels_map = NoAttribute, dsattr_lastsplit = Some l, samples = x\<rparr>"

definition ex_terr :: "(int, nat) terr_obj" where
  "ex_terr = \<lparr>clf = 0, te_enabled = {}, te_stored = [], te_samples_error = [],
       te_confusion = ex_summary 0, te_training_confusion = ex_summary 0\<rparr>"

definition ex_clf :: "(nat, nat, nat) clf_obj" where
  "ex_clf = \<lparr>testdataset = Attribute None, summaryClass = ex_summary 0, trained = 7\<rparr>"

definition ex_heap :: "(int, nat, nat, nat) heap" where
  "ex_heap = \<lparr>terrs = (\<lambda>_. ex_terr), next_terr = 1, clfs = (\<lambda>_. ex_clf), next_clf = 1\<rparr>"

definition ex_engine ::
  "string set \<Rightarrow> bool \<Rightarrow> nat split list \<Rightarrow> (int, nat, nat, unit, int) engine" where
  "ex_engine en ex folds = \<lparr>enabled = en, results = [], splits = [], transerrors = [],
     confusion = ex_summary 0, training_confusion = ex_summary 0, samples_error = Map.empty,
     splitter = (\<lambda>_. folds), combiner = (\<lambda>rs. Inr (sum_list rs)), transerror = 0,
     expose_testdataset = ex, harvest = (\<lambda>_ h. Inr h), harvested = ()\<rparr>"

definition ex_dataset :: "nat dataset" where
  "ex_dataset = ex_ds [0, 1, 2, 3] False 0"

text \<open>
  Two folds: the first trains and tests, the second only tests and carries the marker of
  the last fold.
\<close>

definition ex_folds :: "nat split list" where
  "ex_folds = [[Some (ex_ds [0, 1] False 10), Some (ex_ds [2, 3] False 4)],
               [None, Some (ex_ds [0, 1] True 20)]]"

subsection \<open>Invariants of the statements\<close>

text \<open>A statement preserves a property of frames, whether it raises or not.\<close>

definition preserves ::
  "(('r, 'm, 'd, 'c, 'h, 'v) frame \<Rightarrow> bool) \<Rightarrow> ('r, 'm, 'd, 'c, 'h, 'v) stmt \<Rightarrow> bool" where
  "preserves P f = (\<forall>s. P s \<longrightarrow> P (snd (f s)))"

text \<open>What no statement before line 224 assigns: the configuration and the fixed locals.\<close>

definition frame_cfg where
  "frame_cfg s = (enabled (self s), splitter (self s), combiner (self s), transerror (self s),
     expose_testdataset (self s), harvest (self s), clf_v s, expose_testdataset_v s,
     terr_enable s, clf_hastestdataset s)"

text \<open>A frame with the engine's \<^verbatim>\<open>expose_testdataset\<close> option and its local copy set.\<close>

definition with_expose ::
  "bool \<Rightarrow> ('r, 'm, 'd, 'c, 'h, 'v) frame \<Rightarrow> ('r, 'm, 'd, 'c, 'h, 'v) frame" where
  "with_expose b s =
     s\<lparr>expose_testdataset_v := b, self := (self s)\<lparr>expose_testdataset := b\<rparr>\<rparr>"

text \<open>
  A statement that, on a frame whose classifier has no \<^verbatim>\<open>testdataset\<close> attribute, does
  the same whatever the option is.
\<close>

definition expose_blind :: "bool \<Rightarrow> ('r, 'm, 'd, 'c, 'h, 'v) stmt \<Rightarrow> bool" where
  "expose_blind b f =
     (\<forall>s. \<not> clf_hastestdataset s \<longrightarrow>
          f (with_expose b s) = (case f s of (r, s') \<Rightarrow> (r, with_expose b s')) \<and>
          \<not> clf_hastestdataset (snd (f s)))"

definition ex_heap_noslot :: "(int, nat, nat, nat) heap" where
  "ex_heap_noslot = ex_heap\<lparr>clfs := (\<lambda>_. ex_clf\<lparr>testdataset := NoAttribute\<rparr>)\<rparr>"

text \<open>The statements of the loop body from line 186 on, and from line 198 on.\<close>

definition body_collect ::
  "('r, 'm, 'd, 'c) collaborators \<Rightarrow> 'd split \<Rightarrow> ('r, 'm, 'd, 'c, 'h, 'v) stmt" where
  "body_collect K split =
     seq (harvest_locals split)
    (seq store_transerror
    (seq pull_samples_error
    (seq (pull_confusion K)
    (seq (pull_training_confusion K)
         append_result))))"

definition body_after_select ::
  "('r, 'm, 'd, 'c) collaborators \<Rightarrow> 'd split \<Rightarrow> ('r, 'm, 'd, 'c, 'h, 'v) stmt" where
  "body_after_select K split =
     seq (bind_testdataset split)
    (seq (run_the_beast K split)
    (seq unbind_testdataset
         (body_collect K split)))"

text \<open>
  The frame at the start of the loop, with \<^verbatim>\<open>transerrors\<close> enabled and the test dataset
  exposed, and the two folds by name.
\<close>

definition ex_frame :: "(int, nat, nat, nat, unit, int) frame" where
  "ex_frame = prologue ex_K ex_dataset (ex_engine {''transerrors''} True ex_folds) ex_heap"

definition ex_fold1 :: "nat split" where
  "ex_fold1 = [Some (ex_ds [0, 1] False 10), Some (ex_ds [2, 3] False 4)]"

definition ex_fold2 :: "nat split" where
  "ex_fold2 = [None, Some (ex_ds [0, 1] True 20)]"

text \<open>A statement that never ends with an exception of the evaluation.\<close>

definition no_evaluation_error :: "('r, 'm, 'd, 'c, 'h, 'v) stmt \<Rightarrow> bool" where
  "no_evaluation_error f = (\<forall>s msg. fst (f s) \<noteq> Some (EvaluationError msg))"

text \<open>Two folds of which the second has a test partition the evaluation rejects.\<close>

definition ex_fold_bad :: "nat split" where
  "ex_fold_bad = [Some (ex_ds [0, 1] False 10), Some (ex_ds [2, 3] True 0)]"

definition ex_folds_bad :: "nat split list" where
  "ex_folds_bad = [ex_fold1, ex_fold_bad]"

text \<open>
  The references of a frame are in order: the engine's TransferError and the classifier
  bound to \<^verbatim>\<open>clf\<close> are allocated, and the former still refers to the latter.
\<close>

definition refs_ok :: "('r, 'm, 'd, 'c, 'h, 'v) frame \<Rightarrow> bool" where
  "refs_ok s =
     (transerror (self s) < next_terr (heap s) \<and> clf_v s < next_clf (heap s) \<and>
      clf (terrs (heap s) (transerror (self s))) = clf_v s)"

text \<open>
  The temporary enablement is in force: the engine still holds the instance \<open>a0\<close>, and
  \<open>a0\<close> and every instance allocated from \<open>n0\<close> on have the enablement \<open>E\<close> and the
  stack \<open>S\<close>; the local \<^verbatim>\<open>transerror\<close>, once bound, is one of these instances.
\<close>

definition overridden ::
  "addr \<Rightarrow> addr \<Rightarrow> string set \<Rightarrow> string set list \<Rightarrow> ('r, 'm, 'd, 'c, 'h, 'v) frame \<Rightarrow> bool" where
  "overridden a0 n0 E S s =
     (transerror (self s) = a0 \<and> n0 \<le> next_terr (heap s) \<and>
      (\<forall>a. a = a0 \<or> (n0 \<le> a \<and> a < next_terr (heap s)) \<longrightarrow>
           te_enabled (terrs (heap s) a) = E \<and> te_stored (terrs (heap s) a) = S) \<and>
      (\<forall>a. transerror_v s = Some a \<longrightarrow> a = a0 \<or> (n0 \<le> a \<and> a < next_terr (heap s))))"

lemmas body_defs = store_split_def select_transerror_def bind_testdataset_def run_the_beast_def
  unbind_testdataset_def harvest_locals_def store_transerror_def pull_samples_error_def
  pull_confusion_def pull_training_confusion_def append_result_def set_testdataset_def

lemmas after_defs = rebind_transerror_def restore_states_def store_results_def
  provide_labels_map_def provide_confusion_labels_def provide_training_confusion_labels_def
  try_except_pass_def return_combined_def

lemmas run_defs = cvte_call_def cvte_main_def seq_def prologue_def fold_body_def body_defs
  after_defs isEnabled_def item_def deepcopy_def call_transerror_def changeTemporarily_def
  resetEnabledTemporarily_def Let_def

lemmas ex_defs = ex_summary_def ex_evaluate_def ex_K_def ex_ds_def ex_terr_def ex_clf_def
  ex_heap_def ex_engine_def ex_folds_def ex_dataset_def

lemma seq_None: "seq f g s = (None, s') \<longleftrightarrow> (\<exists>s1. f s = (None, s1) \<and> g s1 = (None, s'))"
  by (auto simp: seq_def split: prod.splits option.splits)

lemma seq_Some: "seq f g s = (Some e, s') \<longleftrightarrow>
   (f s = (Some e, s') \<or> (\<exists>s1. f s = (None, s1) \<and> g s1 = (Some e, s')))"
  by (auto simp: seq_def split: prod.splits option.splits)

lemma preserves_seq: "preserves P f \<Longrightarrow> preserves P g \<Longrightarrow> preserves P (seq f g)"
  by (auto simp: preserves_def seq_def split: prod.splits option.splits)

lemma preserves_fold_body:
  assumes "preserves P (store_split split)" "preserves P (select_transerror split)"
    "preserves P (bind_testdataset split)" "preserves P (run_the_beast K split)"
    "preserves P unbind_testdataset" "preserves P (harvest_locals split)"
    "preserves P store_transerror" "preserves P pull_samples_error"
    "preserves P (pull_confusion K)" "preserves P (pull_training_confusion K)"
    "preserves P append_result"
  shows "preserves P (fold_body K split)"
  unfolding fold_body_def by (intro preserves_seq assms)

lemma preserves_run_folds:
  assumes "\<And>split. preserves P (fold_body K split)"
  shows "preserves P (run_folds K folds)"
proof (induction folds)
  case Nil
  then show ?case by (simp add: preserves_def)
next
  case (Cons split rest)
  have b: "preserves P (fold_body K split)" by (rule assms)
  have r: "preserves P (run_folds K rest)" by (rule Cons.IH)
  show ?case unfolding preserves_def
  proof (intro allI impI)
    fix s assume "P s"
    then have 1: "P (snd (fold_body K split s))" using b by (simp add: preserves_def)
    show "P (snd (run_folds K (split # rest) s))"
    proof (cases "fold_body K split s")
      case (Pair r s')
      then show ?thesis using 1 r by (cases r) (auto simp: preserves_def)
    qed
  qed
qed

lemma cfg_fold_body: "preserves (\<lambda>s. frame_cfg s = c) (fold_body K split)"
  by (rule preserves_fold_body)
     (auto simp: preserves_def frame_cfg_def body_defs deepcopy_def call_transerror_def Let_def
           split: sum.splits option.splits prod.splits if_splits)

lemma cfg_run_folds: "frame_cfg (snd (run_folds K folds s)) = frame_cfg s"
proof -
  have "preserves (\<lambda>s'. frame_cfg s' = frame_cfg s) (run_folds K folds)"
    by (rule preserves_run_folds) (rule cfg_fold_body)
  then show ?thesis by (simp add: preserves_def)
qed

lemma transerror_v_prologue: "transerror_v (prologue K ds e h) = None"
  by (simp add: prologue_def Let_def)

lemma cfg_prologue:
  "frame_cfg (prologue K ds e h) =
     (enabled e, splitter e, combiner e, transerror e, expose_testdataset e, harvest e,
      clf (terrs h (transerror e)), expose_testdataset e,
      filter (\<lambda>state_var. state_var \<in> enabled e)
        [''confusion'', ''training_confusion'', ''samples_error''],
      testdataset (clfs h (clf (terrs h (transerror e)))) \<noteq> NoAttribute)"
  by (simp add: frame_cfg_def prologue_def Let_def isEnabled_def)

lemma combiner_after_loop:
  "combiner (self (snd (run_folds K folds (prologue K ds e h)))) = combiner e"
  using cfg_run_folds [of K folds "prologue K ds e h"]
  by (simp add: cfg_prologue) (simp add: frame_cfg_def)

lemma combiner_main: "combiner (self (snd (cvte_main K e h ds))) = combiner e"
  using combiner_after_loop [of K "splitter e ds" ds e h]
  by (auto simp: cvte_main_def seq_def rebind_transerror_def restore_states_def
        store_results_def split: prod.splits option.splits sum.splits)

lemma results_v_labels: "results_v (snd (provide_labels_map ds s)) = results_v s"
  by (auto simp: provide_labels_map_def seq_def provide_confusion_labels_def
        provide_training_confusion_labels_def split: attribute.splits)

lemma combiner_labels: "combiner (self (snd (provide_labels_map ds s))) = combiner (self s)"
  by (auto simp: provide_labels_map_def seq_def provide_confusion_labels_def
        provide_training_confusion_labels_def split: attribute.splits)

subsection \<open>Zero folds\<close>

text \<open>
  Claim C3. The specification lets a run over zero folds reach the combiner, which is
  then applied to the empty sequence. In the method the local \<^verbatim>\<open>transerror\<close> is bound
  only inside the loop, so with no fold line 224 reads it unbound: the call ends with
  \<open>UnboundLocalError\<close> and the combiner is never applied.
\<close>

theorem zero_folds_raise_before_combiner:
  assumes "splitter e ds = []"
  shows "fst (cvte_call K e h ds) = Inl UnboundLocalError"
  using assms
  by (simp add: cvte_call_def cvte_main_def seq_def rebind_transerror_def
        transerror_v_prologue)

theorem zero_folds_raise_before_combiner_witness:
  "splitter (ex_engine {} False []) ex_dataset = [] \<and>
   fst (cvte_call ex_K (ex_engine {} False []) ex_heap ex_dataset) = Inl UnboundLocalError \<and>
   combiner (ex_engine {} False []) [] = Inr 0"
  using zero_folds_raise_before_combiner [of "ex_engine {} False []" ex_dataset ex_K ex_heap]
  by (simp add: ex_engine_def)

subsection \<open>Attaching the label mapping\<close>

text \<open>
  Claim C8. Once the loop, the rebinding and the restoring are done, the outcome of the
  call is the combiner's outcome on the local results, whatever happens while the label
  mapping is attached: an exception raised there is caught and dropped.
\<close>

theorem labels_map_failure_is_swallowed:
  assumes "fst (cvte_main K e h ds) = None"
  shows "fst (cvte_call K e h ds) =
           (case combiner e (results_v (snd (cvte_main K e h ds))) of
              Inl msg \<Rightarrow> Inl (CombinerError msg)
            | Inr v \<Rightarrow> Inr v)"
proof -
  obtain s where m: "cvte_main K e h ds = (None, s)"
    using assms by (cases "cvte_main K e h ds") simp
  have c: "combiner (self s) = combiner e"
    using combiner_main [of K e h ds] m by simp
  show ?thesis
    by (simp add: cvte_call_def m try_except_pass_def return_combined_def
          results_v_labels combiner_labels c split: sum.splits)
qed

theorem labels_map_failure_is_swallowed_witness:
  "fst (cvte_main ex_K (ex_engine {''confusion''} False ex_folds) ex_heap ex_dataset) = None \<and>
   fst (provide_labels_map ex_dataset
          (snd (cvte_main ex_K (ex_engine {''confusion''} False ex_folds) ex_heap ex_dataset)))
     = Some AttributeError \<and>
   fst (cvte_call ex_K (ex_engine {''confusion''} False ex_folds) ex_heap ex_dataset) = Inr 4"
proof -
  have m: "fst (cvte_main ex_K (ex_engine {''confusion''} False ex_folds) ex_heap ex_dataset)
             = None"
    by (simp add: run_defs ex_defs)
  have r: "results_v (snd (cvte_main ex_K (ex_engine {''confusion''} False ex_folds) ex_heap
                             ex_dataset)) = [- 6, 10]"
    by (simp add: run_defs ex_defs)
  have a: "fst (provide_labels_map ex_dataset
          (snd (cvte_main ex_K (ex_engine {''confusion''} False ex_folds) ex_heap ex_dataset)))
        = Some AttributeError"
    by (simp add: run_defs ex_defs)
  have c: "combiner (ex_engine {''confusion''} False ex_folds) = (\<lambda>rs. Inr (sum_list rs))"
    by (simp add: ex_engine_def)
  show ?thesis
    using labels_map_failure_is_swallowed [OF m] m a
    by (simp add: r c)
qed

subsection \<open>Exposing the test dataset to a classifier without the attribute\<close>

lemma expose_blindD:
  assumes "expose_blind b f" "\<not> clf_hastestdataset s" "f s = (r, s1)"
  shows "f (with_expose b s) = (r, with_expose b s1)" and "\<not> clf_hastestdataset s1"
proof -
  have "f (with_expose b s) = (case f s of (r, s') \<Rightarrow> (r, with_expose b s')) \<and>
        \<not> clf_hastestdataset (snd (f s))"
    using assms(1,2) unfolding expose_blind_def by blast
  then show "f (with_expose b s) = (r, with_expose b s1)" and "\<not> clf_hastestdataset s1"
    by (simp_all add: assms(3))
qed

lemma expose_blindI:
  fixes f :: "('r, 'm, 'd, 'c, 'h, 'v) stmt"
  assumes "\<And>s r s1. \<not> clf_hastestdataset s \<Longrightarrow> f s = (r, s1) \<Longrightarrow>
             f (with_expose b s) = (r, with_expose b s1) \<and> \<not> clf_hastestdataset s1"
  shows "expose_blind b f"
  unfolding expose_blind_def
proof (intro allI impI)
  fix s :: "('r, 'm, 'd, 'c, 'h, 'v) frame"
  assume n: "\<not> clf_hastestdataset s"
  obtain r s1 where f: "f s = (r, s1)" by (cases "f s")
  from assms [OF n f] show "f (with_expose b s) = (case f s of (r, s') \<Rightarrow> (r, with_expose b s')) \<and>
          \<not> clf_hastestdataset (snd (f s))"
    by (simp add: f)
qed

lemma expose_blind_seq:
  fixes f :: "('r, 'm, 'd, 'c, 'h, 'v) stmt"
  assumes "expose_blind b f" "expose_blind b g"
  shows "expose_blind b (seq f g)"
proof (rule expose_blindI)
  fix s :: "('r, 'm, 'd, 'c, 'h, 'v) frame" and r s2
  assume n: "\<not> clf_hastestdataset s" and sq: "seq f g s = (r, s2)"
  obtain r1 s1 where f: "f s = (r1, s1)" by (cases "f s")
  note f' = expose_blindD [OF assms(1) n f]
  show "seq f g (with_expose b s) = (r, with_expose b s2) \<and> \<not> clf_hastestdataset s2"
  proof (cases r1)
    case None
    then have g: "g s1 = (r, s2)" using sq f by (simp add: seq_def)
    note g' = expose_blindD [OF assms(2) f'(2) g]
    show ?thesis using None f'(1) g' by (simp add: seq_def)
  next
    case (Some err)
    then have "r = r1" "s2 = s1" using sq f by (simp_all add: seq_def)
    then show ?thesis using Some f' by (simp add: seq_def)
  qed
qed

lemma expose_blind_store_split: "expose_blind b (store_split split)"
  by (simp add: expose_blind_def with_expose_def store_split_def isEnabled_def)

lemma expose_blind_select_transerror: "expose_blind b (select_transerror split)"
  by (simp add: expose_blind_def with_expose_def select_transerror_def isEnabled_def
        deepcopy_def Let_def split: sum.splits)

lemma expose_blind_bind_testdataset: "expose_blind b (bind_testdataset split)"
  by (simp add: expose_blind_def with_expose_def bind_testdataset_def)

lemma expose_blind_run_the_beast: "expose_blind b (run_the_beast K split)"
  by (simp add: expose_blind_def with_expose_def run_the_beast_def
        split: sum.splits option.splits prod.splits)

lemma expose_blind_unbind_testdataset: "expose_blind b unbind_testdataset"
  by (simp add: expose_blind_def with_expose_def unbind_testdataset_def)

lemma expose_blind_harvest_locals: "expose_blind b (harvest_locals split)"
  by (simp add: expose_blind_def with_expose_def harvest_locals_def
        split: sum.splits option.splits)

lemma expose_blind_store_transerror: "expose_blind b store_transerror"
  by (simp add: expose_blind_def with_expose_def store_transerror_def isEnabled_def
        split: option.splits)

lemma expose_blind_pull_samples_error: "expose_blind b pull_samples_error"
  by (simp add: expose_blind_def with_expose_def pull_samples_error_def isEnabled_def
        split: option.splits prod.splits)

lemma expose_blind_pull_confusion: "expose_blind b (pull_confusion K)"
  by (simp add: expose_blind_def with_expose_def pull_confusion_def isEnabled_def
        split: option.splits)

lemma expose_blind_pull_training_confusion: "expose_blind b (pull_training_confusion K)"
  by (simp add: expose_blind_def with_expose_def pull_training_confusion_def isEnabled_def
        split: option.splits)

lemma expose_blind_append_result: "expose_blind b append_result"
  by (simp add: expose_blind_def with_expose_def append_result_def split: option.splits)

lemma expose_blind_fold_body: "expose_blind b (fold_body K split)"
  unfolding fold_body_def
  by (intro expose_blind_seq expose_blind_store_split expose_blind_select_transerror
        expose_blind_bind_testdataset expose_blind_run_the_beast
        expose_blind_unbind_testdataset expose_blind_harvest_locals
        expose_blind_store_transerror expose_blind_pull_samples_error
        expose_blind_pull_confusion expose_blind_pull_training_confusion
        expose_blind_append_result)

lemma run_folds_Cons_seq:
  "run_folds K (split # rest) = seq (fold_body K split) (run_folds K rest)"
  by (rule ext) (simp add: seq_def)

lemma expose_blind_run_folds: "expose_blind b (run_folds K folds)"
proof (induction folds)
  case Nil
  show ?case by (simp add: expose_blind_def)
next
  case (Cons split rest)
  show ?case
    unfolding run_folds_Cons_seq
    by (rule expose_blind_seq [OF expose_blind_fold_body Cons.IH])
qed

lemma expose_blind_rebind_transerror: "expose_blind b rebind_transerror"
  by (simp add: expose_blind_def with_expose_def rebind_transerror_def split: option.splits)

lemma expose_blind_restore_states: "expose_blind b restore_states"
  by (simp add: expose_blind_def with_expose_def restore_states_def split: sum.splits)

lemma expose_blind_store_results: "expose_blind b store_results"
  by (simp add: expose_blind_def with_expose_def store_results_def isEnabled_def)

lemma expose_blind_after:
  "expose_blind b (seq rebind_transerror (seq restore_states store_results))"
  by (intro expose_blind_seq expose_blind_rebind_transerror expose_blind_restore_states
        expose_blind_store_results)

lemma expose_blind_labels: "expose_blind b (try_except_pass (provide_labels_map ds))"
  by (simp add: expose_blind_def with_expose_def try_except_pass_def provide_labels_map_def
        provide_confusion_labels_def provide_training_confusion_labels_def isEnabled_def
        seq_def split: attribute.splits)

lemma prologue_with_expose:
  "prologue K ds (e\<lparr>expose_testdataset := b\<rparr>) h = with_expose b (prologue K ds e h)"
  by (simp add: prologue_def with_expose_def isEnabled_def Let_def)

lemma return_combined_with_expose:
  "return_combined (with_expose b s) =
     (case return_combined s of (r, e', h') \<Rightarrow> (r, e'\<lparr>expose_testdataset := b\<rparr>, h'))"
  by (simp add: return_combined_def with_expose_def split: sum.splits)

lemma cvte_call_with_expose:
  assumes "testdataset (clfs h (clf (terrs h (transerror e)))) = NoAttribute"
  shows "cvte_call K (e\<lparr>expose_testdataset := b\<rparr>) h ds =
           (case cvte_call K e h ds of (r, e', h') \<Rightarrow> (r, e'\<lparr>expose_testdataset := b\<rparr>, h'))"
proof -
  let ?main = "seq (run_folds K (splitter e ds))
                 (seq rebind_transerror (seq restore_states store_results))"
  let ?p = "prologue K ds e h"
  have n: "\<not> clf_hastestdataset ?p" using assms by (simp add: prologue_def Let_def)
  have bm: "expose_blind b ?main"
    by (intro expose_blind_seq expose_blind_run_folds expose_blind_after)
  obtain r s where m: "?main ?p = (r, s)" by (cases "?main ?p")
  note m' = expose_blindD [OF bm n m]
  have c1: "cvte_main K e h ds = (r, s)" using m by (simp add: cvte_main_def)
  have c2: "cvte_main K (e\<lparr>expose_testdataset := b\<rparr>) h ds = (r, with_expose b s)"
    using m'(1) by (simp add: cvte_main_def prologue_with_expose)
  let ?t = "try_except_pass (provide_labels_map ds)"
  obtain s2 where t: "?t s = (None, s2)" by (simp add: try_except_pass_def)
  note t' = expose_blindD [OF expose_blind_labels m'(2) t]
  show ?thesis
  proof (cases r)
    case None
    then show ?thesis
      by (simp add: cvte_call_def c1 c2 t t'(1) return_combined_with_expose)
  next
    case (Some err)
    then show ?thesis by (simp add: cvte_call_def c1 c2 with_expose_def)
  qed
qed

text \<open>
  Claim C7. When the classifier of the engine's TransferError has no \<^verbatim>\<open>testdataset\<close>
  attribute, a call with \<^verbatim>\<open>expose_testdataset\<close> enabled ends exactly as the call with it
  disabled: the same value or exception, the same engine state (the option itself apart)
  and the same store.
\<close>

theorem expose_without_slot_changes_nothing:
  assumes "testdataset (clfs h (clf (terrs h (transerror e)))) = NoAttribute"
  shows "cvte_call K (e\<lparr>expose_testdataset := True\<rparr>) h ds =
           (case cvte_call K (e\<lparr>expose_testdataset := False\<rparr>) h ds of
              (r, e', h') \<Rightarrow> (r, e'\<lparr>expose_testdataset := True\<rparr>, h'))"
  using cvte_call_with_expose [of h "e\<lparr>expose_testdataset := False\<rparr>" K True ds] assms
  by simp

theorem expose_without_slot_changes_nothing_witness:
  "testdataset (clfs ex_heap_noslot (clf (terrs ex_heap_noslot
      (transerror (ex_engine {''samples_error''} False ex_folds))))) = NoAttribute \<and>
   cvte_call ex_K ((ex_engine {''samples_error''} False ex_folds)\<lparr>expose_testdataset := True\<rparr>)
       ex_heap_noslot ex_dataset =
     (case cvte_call ex_K
             ((ex_engine {''samples_error''} False ex_folds)\<lparr>expose_testdataset := False\<rparr>)
             ex_heap_noslot ex_dataset of
        (r, e', h') \<Rightarrow> (r, e'\<lparr>expose_testdataset := True\<rparr>, h')) \<and>
   fst (cvte_call ex_K
          ((ex_engine {''samples_error''} False ex_folds)\<lparr>expose_testdataset := True\<rparr>)
          ex_heap_noslot ex_dataset) = Inr 4"
proof -
  have n: "testdataset (clfs ex_heap_noslot (clf (terrs ex_heap_noslot
      (transerror (ex_engine {''samples_error''} False ex_folds))))) = NoAttribute"
    by (simp add: ex_heap_noslot_def ex_defs)
  have v: "fst (cvte_call ex_K
          ((ex_engine {''samples_error''} False ex_folds)\<lparr>expose_testdataset := True\<rparr>)
          ex_heap_noslot ex_dataset) = Inr 4"
    by (simp add: run_defs ex_heap_noslot_def ex_defs)
  show ?thesis
    using expose_without_slot_changes_nothing [OF n, of ex_K ex_dataset] n v
    by simp
qed

subsection \<open>Properties kept from the prologue to the end of the call\<close>

lemma preservesD: "preserves P f \<Longrightarrow> P s \<Longrightarrow> f s = (r, s') \<Longrightarrow> P s'"
  unfolding preserves_def by (metis snd_conv)

lemma preserves_main:
  assumes "\<And>split. preserves P (fold_body K split)" "preserves P rebind_transerror"
    "preserves P restore_states" "preserves P store_results"
  shows "preserves P (seq (run_folds K folds)
           (seq rebind_transerror (seq restore_states store_results)))"
  by (intro preserves_seq preserves_run_folds assms)

lemma cvte_call_preserves:
  assumes b: "\<And>split. preserves P (fold_body K split)"
    and a: "preserves P rebind_transerror" "preserves P restore_states"
      "preserves P store_results"
    and t: "preserves P (try_except_pass (provide_labels_map ds))"
    and p: "P (prologue K ds e h)"
    and c: "cvte_call K e h ds = (r, e', h')"
  shows "\<exists>s. P s \<and> self s = e' \<and> heap s = h'"
proof -
  obtain r1 s1 where m: "cvte_main K e h ds = (r1, s1)" by (cases "cvte_main K e h ds")
  have p1: "P s1"
    using preservesD [OF preserves_main [OF b a] p] m by (simp add: cvte_main_def)
  show ?thesis
  proof (cases r1)
    case (Some err)
    then show ?thesis using c m p1 by (auto simp: cvte_call_def)
  next
    case None
    obtain s2 where t2: "try_except_pass (provide_labels_map ds) s1 = (None, s2)"
      by (simp add: try_except_pass_def)
    have p2: "P s2" by (rule preservesD [OF t p1 t2])
    have "self s2 = e' \<and> heap s2 = h'"
      using c m None t2 by (auto simp: cvte_call_def return_combined_def split: sum.splits)
    then show ?thesis using p2 by blast
  qed
qed

subsection \<open>The keys of the per-sample errors\<close>

lemma append_samples_dom: "dom (snd (append_samples kvs m)) = dom m"
proof (induction kvs arbitrary: m)
  case Nil
  show ?case by simp
next
  case (Cons kv kvs)
  obtain k v where kv: "kv = (k, v)" by (cases kv)
  show ?case
  proof (cases "m k")
    case None
    then show ?thesis by (simp add: kv)
  next
    case (Some vs)
    have step: "append_samples (kv # kvs) m = append_samples kvs (m(k \<mapsto> vs @ [v]))"
      by (simp add: kv Some)
    have d: "dom (m(k \<mapsto> vs @ [v])) = dom m" using Some by auto
    show ?thesis
      unfolding step using Cons.IH [of "m(k \<mapsto> vs @ [v])"] d by (rule trans)
  qed
qed

lemma append_samples_other:
  "k \<notin> fst ` set kvs \<Longrightarrow> snd (append_samples kvs m) k = m k"
proof (induction kvs arbitrary: m)
  case Nil
  show ?case by simp
next
  case (Cons kv kvs)
  obtain k' v where kv: "kv = (k', v)" by (cases kv)
  have ne: "k' \<noteq> k" and rest: "k \<notin> fst ` set kvs" using Cons.prems by (auto simp: kv)
  show ?case
  proof (cases "m k'")
    case None
    then show ?thesis by (simp add: kv)
  next
    case (Some vs)
    have step: "append_samples (kv # kvs) m = append_samples kvs (m(k' \<mapsto> vs @ [v]))"
      by (simp add: kv Some)
    have o: "(m(k' \<mapsto> vs @ [v])) k = m k" using ne by simp
    show ?thesis
      unfolding step using Cons.IH [OF rest, of "m(k' \<mapsto> vs @ [v])"] o by (rule trans)
  qed
qed

lemma keys_fold_body:
  "preserves (\<lambda>s. dom (samples_error (self s)) = D) (fold_body K split)"
proof (rule preserves_fold_body)
  show "preserves (\<lambda>s. dom (samples_error (self s)) = D) pull_samples_error"
    by (simp add: preserves_def pull_samples_error_def append_samples_dom
          split: option.splits prod.splits)
       (metis append_samples_dom snd_conv)
qed (simp_all add: preserves_def body_defs deepcopy_def call_transerror_def Let_def
       split: sum.splits option.splits prod.splits)

lemma keys_after:
  "preserves (\<lambda>s. dom (samples_error (self s)) = D) rebind_transerror"
  "preserves (\<lambda>s. dom (samples_error (self s)) = D) restore_states"
  "preserves (\<lambda>s. dom (samples_error (self s)) = D) store_results"
  "preserves (\<lambda>s. dom (samples_error (self s)) = D) (try_except_pass (provide_labels_map ds))"
  by (simp_all add: preserves_def after_defs seq_def
        split: sum.splits option.splits attribute.splits)

lemma keys_prologue:
  "''samples_error'' \<in> enabled e \<Longrightarrow>
   dom (samples_error (self (prologue K ds e h))) = set (origids ds)"
  by (simp add: prologue_def Let_def isEnabled_def dom_map_of_conv_image_fst image_image)


text \<open>
  Claim C6. With \<^verbatim>\<open>samples_error\<close> enabled, however the call ends, the keys of the
  engine's per-sample errors are the dataset's \<^verbatim>\<open>origids\<close>; appending a fold's
  contributions leaves the sequence of every identifier the fold does not mention as it was.
\<close>

theorem samples_error_keys_are_origids:
  fixes K :: "('r, 'm, 'd, 'c) collaborators" and e :: "('r, 'm, 'd, 'h, 'v) engine"
  assumes "''samples_error'' \<in> enabled e" and "cvte_call K e h ds = (r, e', h')"
  shows "dom (samples_error e') = set (origids ds) \<and>
         (\<forall>kvs m k. k \<notin> fst ` set kvs \<longrightarrow> snd (append_samples kvs m) k = m k)"
proof -
  have "\<exists>s :: ('r, 'm, 'd, 'c, 'h, 'v) frame.
          dom (samples_error (self s)) = set (origids ds) \<and> self s = e' \<and> heap s = h'"
    by (rule cvte_call_preserves [OF keys_fold_body keys_after(1) keys_after(2)
          keys_after(3) keys_after(4) keys_prologue, OF assms])
  then show ?thesis using append_samples_other by blast
qed

theorem samples_error_keys_are_origids_witness:
  "''samples_error'' \<in> enabled (ex_engine {''samples_error''} False ex_folds) \<and>
   dom (samples_error (fst (snd (cvte_call ex_K (ex_engine {''samples_error''} False ex_folds)
          ex_heap ex_dataset)))) = {0, 1, 2, 3} \<and>
   samples_error (fst (snd (cvte_call ex_K (ex_engine {''samples_error''} False ex_folds)
          ex_heap ex_dataset))) 2 = Some [- 6]"
proof -
  have en: "''samples_error'' \<in> enabled (ex_engine {''samples_error''} False ex_folds)"
    by (simp add: ex_engine_def)
  have c: "cvte_call ex_K (ex_engine {''samples_error''} False ex_folds) ex_heap ex_dataset =
      (fst (cvte_call ex_K (ex_engine {''samples_error''} False ex_folds) ex_heap ex_dataset),
       fst (snd (cvte_call ex_K (ex_engine {''samples_error''} False ex_folds) ex_heap
                   ex_dataset)),
       snd (snd (cvte_call ex_K (ex_engine {''samples_error''} False ex_folds) ex_heap
                   ex_dataset)))"
    by simp
  have o: "set (origids ex_dataset) = {0, 1, 2, 3}"
    by (simp add: ex_dataset_def ex_ds_def)
  have v: "samples_error (fst (snd (cvte_call ex_K (ex_engine {''samples_error''} False ex_folds)
          ex_heap ex_dataset))) 2 = Some [- 6]"
    by (simp add: run_defs ex_defs)
  show ?thesis
    using samples_error_keys_are_origids [OF en c] en v unfolding o by blast
qed

subsection \<open>Which instance evaluates a fold\<close>

lemma fold_body_eq:
  "fold_body K split =
     seq (store_split split) (seq (select_transerror split) (body_after_select K split))"
  by (simp add: fold_body_def body_after_select_def body_collect_def)

lemma preserves_body_collect:
  assumes "preserves P (harvest_locals split)"
    "preserves P store_transerror" "preserves P pull_samples_error"
    "preserves P (pull_confusion K)" "preserves P (pull_training_confusion K)"
    "preserves P append_result"
  shows "preserves P (body_collect K split)"
  unfolding body_collect_def by (intro preserves_seq assms)

lemma preserves_body_after_select:
  assumes "preserves P (bind_testdataset split)" "preserves P (run_the_beast K split)"
    "preserves P unbind_testdataset" "preserves P (harvest_locals split)"
    "preserves P store_transerror" "preserves P pull_samples_error"
    "preserves P (pull_confusion K)" "preserves P (pull_training_confusion K)"
    "preserves P append_result"
  shows "preserves P (body_after_select K split)"
  unfolding body_after_select_def by (intro preserves_seq preserves_body_collect assms)

lemma transerror_v_after_select:
  "preserves (\<lambda>s. transerror_v s = x) (body_after_select K split)"
  by (rule preserves_body_after_select)
     (simp_all add: preserves_def body_defs call_transerror_def Let_def
        split: sum.splits option.splits prod.splits)

lemma find_lastsplit_first_present:
  "find_lastsplit split =
     (case List.map_filter (\<lambda>x. x) split of
        [] \<Rightarrow> Inr None
      | ds # _ \<Rightarrow> (case dsattr_lastsplit ds of None \<Rightarrow> Inl KeyError | Some b \<Rightarrow> Inr (Some b)))"
  by (induction split rule: find_lastsplit.induct) (simp_all add: List.map_filter_simps)

lemma select_transerror_copy:
  assumes "select_transerror split s = (None, s1)"
    and "isEnabled ''transerrors'' (self s)" and "find_lastsplit split \<noteq> Inr (Some True)"
  shows "transerror_v s1 = Some (next_terr (heap s))"
    and "terrs (heap s1) = (terrs (heap s))(next_terr (heap s) :=
           (terrs (heap s) (transerror (self s)))\<lparr>clf := next_clf (heap s)\<rparr>)"
    and "clfs (heap s1) = (clfs (heap s))(next_clf (heap s) :=
           clfs (heap s) (clf (terrs (heap s) (transerror (self s)))))"
    and "next_terr (heap s1) = Suc (next_terr (heap s))"
    and "next_clf (heap s1) = Suc (next_clf (heap s))"
    and "self s1 = self s"
  using assms
  by (auto simp: select_transerror_def deepcopy_def Let_def split: sum.splits if_splits)

lemma select_transerror_own:
  assumes "select_transerror split s = (None, s1)"
    and "\<not> isEnabled ''transerrors'' (self s) \<or> find_lastsplit split = Inr (Some True)"
  shows "transerror_v s1 = Some (transerror (self s))" and "heap s1 = heap s"
    and "self s1 = self s"
  using assms
  by (auto simp: select_transerror_def deepcopy_def Let_def split: sum.splits if_splits)

lemma run_the_beast_heap:
  assumes "transerror_v s = Some a" "item split 1 = Inr test" "item split 0 = Inr train"
  shows "heap (snd (run_the_beast K split s)) = snd (call_transerror K a test train (heap s))"
  using assms by (simp add: run_the_beast_def split: prod.splits sum.splits)

text \<open>
  Claim C4. After lines 167 to 183 the local \<^verbatim>\<open>transerror\<close> is bound as follows. With
  \<^verbatim>\<open>transerrors\<close> enabled and a true marker on the first element of the fold that is not
  \<^verbatim>\<open>None\<close>, it is the engine's own instance and the store is untouched. With
  \<^verbatim>\<open>transerrors\<close> enabled and no such marker, it is a new instance with a new classifier,
  both holding what the engine's instance and its classifier hold, which stay as they are.
  With \<^verbatim>\<open>transerrors\<close> disabled it is the engine's own instance. The rest of the body
  does not rebind the local, and line 191 evaluates with the instance it is bound to.
\<close>

theorem evaluating_instance:
  fixes s :: "('r, 'm, 'd, 'c, 'h, 'v) frame" and K :: "('r, 'm, 'd, 'c) collaborators"
  assumes "select_transerror split s = (None, s1)"
    and "transerror (self s) < next_terr (heap s)"
    and "clf (terrs (heap s) (transerror (self s))) < next_clf (heap s)"
  shows "(isEnabled ''transerrors'' (self s) \<and> find_lastsplit split \<noteq> Inr (Some True) \<longrightarrow>
            transerror_v s1 = Some (next_terr (heap s)) \<and>
            next_terr (heap s) \<noteq> transerror (self s) \<and>
            terrs (heap s1) (next_terr (heap s)) =
              (terrs (heap s) (transerror (self s)))\<lparr>clf := next_clf (heap s)\<rparr> \<and>
            next_clf (heap s) \<noteq> clf (terrs (heap s) (transerror (self s))) \<and>
            clfs (heap s1) (next_clf (heap s)) =
              clfs (heap s) (clf (terrs (heap s) (transerror (self s)))) \<and>
            terrs (heap s1) (transerror (self s)) = terrs (heap s) (transerror (self s)) \<and>
            clfs (heap s1) (clf (terrs (heap s) (transerror (self s)))) =
              clfs (heap s) (clf (terrs (heap s) (transerror (self s))))) \<and>
         (\<not> isEnabled ''transerrors'' (self s) \<or> find_lastsplit split = Inr (Some True) \<longrightarrow>
            transerror_v s1 = Some (transerror (self s)) \<and> heap s1 = heap s) \<and>
         find_lastsplit split =
           (case List.map_filter (\<lambda>x. x) split of
              [] \<Rightarrow> Inr None
            | ds # _ \<Rightarrow> (case dsattr_lastsplit ds of
                           None \<Rightarrow> Inl KeyError | Some b \<Rightarrow> Inr (Some b))) \<and>
         transerror_v (snd (body_after_select K split s1)) = transerror_v s1 \<and>
         (\<forall>a test train s2. transerror_v s2 = Some a \<and> item split 1 = Inr test \<and>
             item split 0 = Inr train \<longrightarrow>
             heap (snd (run_the_beast K split s2))
               = snd (call_transerror K a test train (heap s2)))"
proof -
  have keep: "transerror_v (snd (body_after_select K split s1)) = transerror_v s1"
    by (rule preservesD [where P = "\<lambda>s. transerror_v s = transerror_v s1" and s = s1,
          OF transerror_v_after_select refl surjective_pairing])
  have copy: "isEnabled ''transerrors'' (self s) \<and> find_lastsplit split \<noteq> Inr (Some True) \<longrightarrow>
            transerror_v s1 = Some (next_terr (heap s)) \<and>
            next_terr (heap s) \<noteq> transerror (self s) \<and>
            terrs (heap s1) (next_terr (heap s)) =
              (terrs (heap s) (transerror (self s)))\<lparr>clf := next_clf (heap s)\<rparr> \<and>
            next_clf (heap s) \<noteq> clf (terrs (heap s) (transerror (self s))) \<and>
            clfs (heap s1) (next_clf (heap s)) =
              clfs (heap s) (clf (terrs (heap s) (transerror (self s)))) \<and>
            terrs (heap s1) (transerror (self s)) = terrs (heap s) (transerror (self s)) \<and>
            clfs (heap s1) (clf (terrs (heap s) (transerror (self s)))) =
              clfs (heap s) (clf (terrs (heap s) (transerror (self s))))"
  proof (intro impI)
    assume c: "isEnabled ''transerrors'' (self s) \<and> find_lastsplit split \<noteq> Inr (Some True)"
    note f = select_transerror_copy [OF assms(1) conjunct1 [OF c] conjunct2 [OF c]]
    show "transerror_v s1 = Some (next_terr (heap s)) \<and>
            next_terr (heap s) \<noteq> transerror (self s) \<and>
            terrs (heap s1) (next_terr (heap s)) =
              (terrs (heap s) (transerror (self s)))\<lparr>clf := next_clf (heap s)\<rparr> \<and>
            next_clf (heap s) \<noteq> clf (terrs (heap s) (transerror (self s))) \<and>
            clfs (heap s1) (next_clf (heap s)) =
              clfs (heap s) (clf (terrs (heap s) (transerror (self s)))) \<and>
            terrs (heap s1) (transerror (self s)) = terrs (heap s) (transerror (self s)) \<and>
            clfs (heap s1) (clf (terrs (heap s) (transerror (self s)))) =
              clfs (heap s) (clf (terrs (heap s) (transerror (self s))))"
      using assms(2,3) by (simp add: f(1,2,3))
  qed
  have own: "\<not> isEnabled ''transerrors'' (self s) \<or> find_lastsplit split = Inr (Some True) \<longrightarrow>
            transerror_v s1 = Some (transerror (self s)) \<and> heap s1 = heap s"
    using select_transerror_own [OF assms(1)] by blast
  show ?thesis
    using copy own keep find_lastsplit_first_present [of split] run_the_beast_heap
    by blast
qed

theorem evaluating_instance_witness:
  "fst (select_transerror ex_fold1 ex_frame) = None \<and>
   transerror (self ex_frame) < next_terr (heap ex_frame) \<and>
   clf (terrs (heap ex_frame) (transerror (self ex_frame))) < next_clf (heap ex_frame) \<and>
   isEnabled ''transerrors'' (self ex_frame) \<and>
   find_lastsplit ex_fold1 = Inr (Some False) \<and>
   transerror (self ex_frame) = 0 \<and>
   next_terr (heap ex_frame) = 1 \<and>
   transerror_v (snd (select_transerror ex_fold1 ex_frame)) = Some (next_terr (heap ex_frame)) \<and>
   terrs (heap (snd (select_transerror ex_fold1 ex_frame))) (transerror (self ex_frame)) =
     terrs (heap ex_frame) (transerror (self ex_frame))"
proof -
  have sel: "select_transerror ex_fold1 ex_frame =
               (None, snd (select_transerror ex_fold1 ex_frame))"
    by (simp add: ex_frame_def ex_fold1_def run_defs ex_defs)
  have sel1: "fst (select_transerror ex_fold1 ex_frame) = None"
    by (simp add: ex_frame_def ex_fold1_def run_defs ex_defs)
  have w1: "transerror (self ex_frame) < next_terr (heap ex_frame)"
    by (simp add: ex_frame_def run_defs ex_defs)
  have w2: "clf (terrs (heap ex_frame) (transerror (self ex_frame))) < next_clf (heap ex_frame)"
    by (simp add: ex_frame_def run_defs ex_defs)
  have en: "isEnabled ''transerrors'' (self ex_frame)"
    by (simp add: ex_frame_def run_defs ex_defs)
  have fl: "find_lastsplit ex_fold1 = Inr (Some False)"
    by (simp add: ex_fold1_def ex_ds_def)
  have own: "transerror (self ex_frame) = 0" "next_terr (heap ex_frame) = 1"
    by (simp_all add: ex_frame_def run_defs ex_defs)
  have c: "isEnabled ''transerrors'' (self ex_frame) \<and>
           find_lastsplit ex_fold1 \<noteq> Inr (Some True)"
    using en by (simp add: fl)
  note t = evaluating_instance [OF sel w1 w2, of ex_K]
  note t1 = mp [OF conjunct1 [OF t] c]
  show ?thesis
    using sel1 w1 w2 en fl own t1 by blast
qed

subsection \<open>The test dataset after a run\<close>

lemma seq_SomeE:
  assumes "seq f g s = (Some e, s')"
  obtains "f s = (Some e, s')" | s1 where "f s = (None, s1)" "g s1 = (Some e, s')"
  using assms by (auto simp: seq_Some)

lemma seq_NoneE:
  assumes "seq f g s = (None, s')"
  obtains s1 where "f s = (None, s1)" "g s1 = (None, s')"
  using assms by (auto simp: seq_None)

lemma no_evaluation_errorD:
  "no_evaluation_error f \<Longrightarrow> f s = (Some (EvaluationError msg), s') \<Longrightarrow> False"
  unfolding no_evaluation_error_def by (metis fst_conv)

lemma no_evaluation_error_seq:
  assumes "no_evaluation_error f" "no_evaluation_error g"
  shows "no_evaluation_error (seq f g)"
  unfolding no_evaluation_error_def
proof (intro allI notI)
  fix s msg
  assume "fst (seq f g s) = Some (EvaluationError msg)"
  then have "seq f g s = (Some (EvaluationError msg), snd (seq f g s))"
    by (metis prod.collapse)
  then show False
    by (rule seq_SomeE) (erule no_evaluation_errorD [OF assms(1)] no_evaluation_errorD [OF assms(2)])+
qed

lemma find_lastsplit_raises: "find_lastsplit split = Inl err \<Longrightarrow> err = KeyError"
  by (induction split rule: find_lastsplit.induct) (simp_all split: option.splits)

lemma no_evaluation_error_select_transerror: "no_evaluation_error (select_transerror split)"
  by (auto simp: no_evaluation_error_def select_transerror_def deepcopy_def Let_def
        split: sum.splits dest: find_lastsplit_raises)

lemma no_evaluation_error_steps:
  "no_evaluation_error (store_split split)"
  "no_evaluation_error (bind_testdataset split)"
  "no_evaluation_error unbind_testdataset"
  "no_evaluation_error (harvest_locals split)"
  "no_evaluation_error store_transerror"
  "no_evaluation_error (pull_confusion K)"
  "no_evaluation_error (pull_training_confusion K)"
  "no_evaluation_error append_result"
  "no_evaluation_error rebind_transerror"
  "no_evaluation_error restore_states"
  "no_evaluation_error store_results"
  by (simp_all add: no_evaluation_error_def body_defs after_defs deepcopy_def Let_def
        resetEnabledTemporarily_def item_def
        split: sum.splits option.splits prod.splits list.splits)

lemma append_samples_error: "fst (append_samples kvs m) \<noteq> Some (EvaluationError msg)"
proof (induction kvs arbitrary: m)
  case Nil
  show ?case by simp
next
  case (Cons kv kvs)
  obtain k v where kv: "kv = (k, v)" by (cases kv)
  show ?case
  proof (cases "m k")
    case None
    then show ?thesis by (simp add: kv)
  next
    case (Some vs)
    have step: "append_samples (kv # kvs) m = append_samples kvs (m(k \<mapsto> vs @ [v]))"
      by (simp add: kv Some)
    show ?thesis unfolding step by (rule Cons.IH)
  qed
qed

lemma fst_pull_samples_error:
  "fst (pull_samples_error s) =
     (if isEnabled ''samples_error'' (self s)
      then (case transerror_v s of
              None \<Rightarrow> Some UnboundLocalError
            | Some a \<Rightarrow> fst (append_samples (te_samples_error (terrs (heap s) a))
                               (samples_error (self s))))
      else None)"
  by (simp add: pull_samples_error_def split: option.splits prod.splits)

lemma no_evaluation_error_pull_samples_error: "no_evaluation_error pull_samples_error"
  unfolding no_evaluation_error_def
proof (intro allI)
  fix s msg
  show "fst (pull_samples_error s) \<noteq> Some (EvaluationError msg)"
    unfolding fst_pull_samples_error
    by (cases "transerror_v s") (simp_all add: append_samples_error)
qed

lemma no_evaluation_error_after_beast:
  "no_evaluation_error (seq unbind_testdataset (body_collect K split))"
  unfolding body_collect_def
  by (intro no_evaluation_error_seq no_evaluation_error_steps
        no_evaluation_error_pull_samples_error)

lemma cfg_steps:
  "preserves (\<lambda>s. frame_cfg s = c) (store_split split)"
  "preserves (\<lambda>s. frame_cfg s = c) (select_transerror split)"
  "preserves (\<lambda>s. frame_cfg s = c) (bind_testdataset split)"
  "preserves (\<lambda>s. frame_cfg s = c) (run_the_beast K split)"
  "preserves (\<lambda>s. frame_cfg s = c) unbind_testdataset"
  by (simp_all add: preserves_def frame_cfg_def body_defs deepcopy_def call_transerror_def
        Let_def split: sum.splits option.splits prod.splits)

lemma cfg_step:
  assumes "preserves (\<lambda>s'. frame_cfg s' = frame_cfg s) f" "f s = (r, s1)"
  shows "frame_cfg s1 = frame_cfg s"
  by (rule preservesD [where P = "\<lambda>s'. frame_cfg s' = frame_cfg s" and s = s,
        OF assms(1) refl assms(2)])

lemma frame_cfg_locals:
  assumes "frame_cfg s1 = frame_cfg s"
  shows "clf_v s1 = clf_v s" "clf_hastestdataset s1 = clf_hastestdataset s"
    "expose_testdataset_v s1 = expose_testdataset_v s"
  using assms by (simp_all add: frame_cfg_def)

lemma call_transerror_testdataset:
  "testdataset (clfs (snd (call_transerror K a test train h)) c) = testdataset (clfs h c)"
  by (simp add: call_transerror_def Let_def split: sum.splits)

lemma bind_testdataset_bound:
  assumes "bind_testdataset split s = (None, s1)"
    and "clf_hastestdataset s" "expose_testdataset_v s"
  shows "1 < length split" "testdataset (clfs (heap s1) (clf_v s)) = Attribute (split ! 1)"
  using assms
  by (auto simp: bind_testdataset_def item_def set_testdataset_def split: if_splits)

lemma run_the_beast_raises:
  assumes "run_the_beast K split s = (Some err, s1)"
  shows "testdataset (clfs (heap s1) c) = testdataset (clfs (heap s) c)"
proof (cases "transerror_v s")
  case None
  then show ?thesis using assms by (simp add: run_the_beast_def)
next
  case (Some a)
  show ?thesis
  proof (cases "item split 1")
    case (Inl e1)
    then show ?thesis using assms Some by (simp add: run_the_beast_def)
  next
    case test: (Inr test)
    show ?thesis
    proof (cases "item split 0")
      case (Inl e0)
      then show ?thesis using assms Some test by (simp add: run_the_beast_def)
    next
      case train: (Inr train)
      obtain r h where c: "call_transerror K a test train (heap s) = (r, h)"
        by (cases "call_transerror K a test train (heap s)")
      have h: "h = snd (call_transerror K a test train (heap s))" using c by simp
      have "heap s1 = h"
        using assms Some test train c by (cases r) (auto simp: run_the_beast_def)
      then show ?thesis using call_transerror_testdataset [of K a test train "heap s" c] h
        by simp
    qed
  qed
qed

lemma fold_body_evaluation_error:
  fixes s :: "('r, 'm, 'd, 'c, 'h, 'v) frame"
  assumes b: "fold_body K split s = (Some (EvaluationError msg), s')"
    and f: "clf_hastestdataset s" "expose_testdataset_v s"
  shows "1 < length split \<and> testdataset (clfs (heap s') (clf_v s)) = Attribute (split ! 1)"
proof -
  from b have b': "seq (store_split split) (seq (select_transerror split)
      (seq (bind_testdataset split) (seq (run_the_beast K split)
      (seq unbind_testdataset (body_collect K split))))) s = (Some (EvaluationError msg), s')"
    by (simp add: fold_body_eq body_after_select_def)
  from b' obtain sa where sa: "store_split split s = (None, sa)"
    and b1: "seq (select_transerror split)
      (seq (bind_testdataset split) (seq (run_the_beast K split)
      (seq unbind_testdataset (body_collect K split)))) sa = (Some (EvaluationError msg), s')"
    by (rule seq_SomeE) (auto dest: no_evaluation_errorD [OF no_evaluation_error_steps(1)])
  from b1 obtain sb where sb: "select_transerror split sa = (None, sb)"
    and b2: "seq (bind_testdataset split) (seq (run_the_beast K split)
      (seq unbind_testdataset (body_collect K split))) sb = (Some (EvaluationError msg), s')"
    by (rule seq_SomeE) (auto dest: no_evaluation_errorD [OF no_evaluation_error_select_transerror])
  from b2 obtain sc where sc: "bind_testdataset split sb = (None, sc)"
    and b3: "seq (run_the_beast K split)
      (seq unbind_testdataset (body_collect K split)) sc = (Some (EvaluationError msg), s')"
    by (rule seq_SomeE) (auto dest: no_evaluation_errorD [OF no_evaluation_error_steps(2)])
  from b3 have sd: "run_the_beast K split sc = (Some (EvaluationError msg), s')"
    by (rule seq_SomeE) (auto dest: no_evaluation_errorD [OF no_evaluation_error_after_beast])
  have ca: "frame_cfg sa = frame_cfg s" by (rule cfg_step [OF cfg_steps(1) sa])
  have cb: "frame_cfg sb = frame_cfg sa" by (rule cfg_step [OF cfg_steps(2) sb])
  have cb': "frame_cfg sb = frame_cfg s" using ca cb by simp
  note lb = frame_cfg_locals [OF cb']
  have fb: "clf_hastestdataset sb" "expose_testdataset_v sb" using f lb by simp_all
  note bound = bind_testdataset_bound [OF sc fb]
  have "testdataset (clfs (heap s') (clf_v sb)) = testdataset (clfs (heap sc) (clf_v sb))"
    by (rule run_the_beast_raises [OF sd])
  then show ?thesis using bound lb(1) by simp
qed

lemma run_folds_error_split:
  assumes "run_folds K folds s = (Some err, s')"
  shows "\<exists>pre split post s1. folds = pre @ split # post \<and> run_folds K pre s = (None, s1) \<and>
           fold_body K split s1 = (Some err, s')"
  using assms
proof (induction folds arbitrary: s)
  case Nil
  then show ?case by simp
next
  case (Cons split rest)
  obtain r s1 where b: "fold_body K split s = (r, s1)" by (cases "fold_body K split s")
  show ?case
  proof (cases r)
    case None
    then have "run_folds K rest s1 = (Some err, s')" using Cons.prems b by simp
    from Cons.IH [OF this] obtain pre sp post s2 where
      p: "rest = pre @ sp # post" "run_folds K pre s1 = (None, s2)"
         "fold_body K sp s2 = (Some err, s')" by blast
    have "split # rest = (split # pre) @ sp # post" using p(1) by simp
    moreover have "run_folds K (split # pre) s = (None, s2)" using b None p(2) by simp
    ultimately show ?thesis using p(3) by blast
  next
    case (Some e)
    then have "fold_body K split s = (Some err, s')" using Cons.prems b by simp
    moreover have "run_folds K [] s = (None, s)" by simp
    moreover have "split # rest = [] @ split # rest" by simp
    ultimately show ?thesis by blast
  qed
qed

lemma cvte_call_raises:
  assumes "cvte_call K e h ds = (Inl err, e', h')"
  shows "(\<exists>s. cvte_main K e h ds = (Some err, s) \<and> self s = e' \<and> heap s = h') \<or>
         (\<exists>msg. err = CombinerError msg)"
proof -
  obtain r1 s1 where m: "cvte_main K e h ds = (r1, s1)" by (cases "cvte_main K e h ds")
  show ?thesis
  proof (cases r1)
    case (Some e1)
    then show ?thesis using assms m by (simp add: cvte_call_def)
  next
    case None
    then have "return_combined (snd (provide_labels_map ds s1)) = (Inl err, e', h')"
      using assms m by (simp add: cvte_call_def try_except_pass_def)
    then have "\<exists>msg. err = CombinerError msg"
      by (auto simp: return_combined_def split: sum.splits)
    then show ?thesis by blast
  qed
qed

lemma cvte_main_raises:
  assumes "cvte_main K e h ds = (Some err, s)"
  shows "run_folds K (splitter e ds) (prologue K ds e h) = (Some err, s) \<or>
         err = UnboundLocalError \<or> err = ValueError"
proof -
  from assms have "seq (run_folds K (splitter e ds))
      (seq rebind_transerror (seq restore_states store_results)) (prologue K ds e h)
        = (Some err, s)"
    by (simp add: cvte_main_def)
  then show ?thesis
  proof (rule seq_SomeE)
    assume "run_folds K (splitter e ds) (prologue K ds e h) = (Some err, s)"
    then show ?thesis by blast
  next
    fix s1
    assume "seq rebind_transerror (seq restore_states store_results) s1 = (Some err, s)"
    then have "err = UnboundLocalError \<or> err = ValueError"
      by (auto simp: seq_def rebind_transerror_def restore_states_def store_results_def
            resetEnabledTemporarily_def split: option.splits list.splits if_splits)
    then show ?thesis by blast
  qed
qed

lemma cfg_run_folds_locals:
  assumes "run_folds K folds (prologue K ds e h) = (r, s)"
  shows "clf_v s = clf (terrs h (transerror e))"
    and "clf_hastestdataset s = (testdataset (clfs h (clf (terrs h (transerror e)))) \<noteq> NoAttribute)"
    and "expose_testdataset_v s = expose_testdataset e"
proof -
  have "frame_cfg s = frame_cfg (prologue K ds e h)"
    using cfg_run_folds [of K folds "prologue K ds e h"] assms by simp
  then show "clf_v s = clf (terrs h (transerror e))"
    and "clf_hastestdataset s = (testdataset (clfs h (clf (terrs h (transerror e)))) \<noteq> NoAttribute)"
    and "expose_testdataset_v s = expose_testdataset e"
    unfolding cfg_prologue by (simp_all add: frame_cfg_def)
qed

lemma heap_body_collect: "preserves (\<lambda>s. heap s = x) (body_collect K split)"
  by (rule preserves_body_collect)
     (simp_all add: preserves_def body_defs split: sum.splits option.splits prod.splits)

lemma fold_body_unbinds:
  assumes b: "fold_body K split s = (None, s')"
    and f: "clf_hastestdataset s" "expose_testdataset_v s"
  shows "testdataset (clfs (heap s') (clf_v s)) = Attribute None"
proof -
  from b have b': "seq (store_split split) (seq (select_transerror split)
      (seq (bind_testdataset split) (seq (run_the_beast K split)
      (seq unbind_testdataset (body_collect K split))))) s = (None, s')"
    by (simp add: fold_body_eq body_after_select_def)
  from b' obtain sa where sa: "store_split split s = (None, sa)"
    and b1: "seq (select_transerror split)
      (seq (bind_testdataset split) (seq (run_the_beast K split)
      (seq unbind_testdataset (body_collect K split)))) sa = (None, s')"
    by (rule seq_NoneE)
  from b1 obtain sb where sb: "select_transerror split sa = (None, sb)"
    and b2: "seq (bind_testdataset split) (seq (run_the_beast K split)
      (seq unbind_testdataset (body_collect K split))) sb = (None, s')"
    by (rule seq_NoneE)
  from b2 obtain sc where sc: "bind_testdataset split sb = (None, sc)"
    and b3: "seq (run_the_beast K split)
      (seq unbind_testdataset (body_collect K split)) sc = (None, s')"
    by (rule seq_NoneE)
  from b3 obtain sd where sd: "run_the_beast K split sc = (None, sd)"
    and b4: "seq unbind_testdataset (body_collect K split) sd = (None, s')"
    by (rule seq_NoneE)
  from b4 obtain se where se: "unbind_testdataset sd = (None, se)"
    and b5: "body_collect K split se = (None, s')"
    by (rule seq_NoneE)
  have ca: "frame_cfg sa = frame_cfg s" by (rule cfg_step [OF cfg_steps(1) sa])
  have cb: "frame_cfg sb = frame_cfg sa" by (rule cfg_step [OF cfg_steps(2) sb])
  have cc: "frame_cfg sc = frame_cfg sb" by (rule cfg_step [OF cfg_steps(3) sc])
  have cd: "frame_cfg sd = frame_cfg sc" by (rule cfg_step [OF cfg_steps(4) sd])
  have "frame_cfg sd = frame_cfg s" using ca cb cc cd by simp
  note ld = frame_cfg_locals [OF this]
  have "testdataset (clfs (heap se) (clf_v s)) = Attribute None"
    using se f ld by (auto simp: unbind_testdataset_def set_testdataset_def)
  moreover have "heap s' = heap se"
    by (rule preservesD [where P = "\<lambda>s. heap s = heap se" and s = se,
          OF heap_body_collect refl b5])
  ultimately show ?thesis by simp
qed

lemma run_folds_snoc:
  "run_folds K (folds @ [split]) s = seq (run_folds K folds) (fold_body K split) s"
proof (induction folds arbitrary: s)
  case Nil
  show ?case by (simp add: seq_def split: prod.splits option.splits)
next
  case (Cons f folds)
  show ?case
    by (cases "fold_body K f s") (auto simp: seq_def Cons.IH split: option.splits)
qed

lemma clfs_after:
  "preserves (\<lambda>s. clfs (heap s) = x) rebind_transerror"
  "preserves (\<lambda>s. clfs (heap s) = x) restore_states"
  "preserves (\<lambda>s. clfs (heap s) = x) store_results"
  "preserves (\<lambda>s. clfs (heap s) = x) (try_except_pass (provide_labels_map ds))"
  by (simp_all add: preserves_def after_defs seq_def
        split: sum.splits option.splits attribute.splits)

lemma cvte_call_returns:
  assumes "cvte_call K e h ds = (Inr v, e', h')"
  shows "\<exists>s0 s1 s2. run_folds K (splitter e ds) (prologue K ds e h) = (None, s0) \<and>
           seq rebind_transerror (seq restore_states store_results) s0 = (None, s1) \<and>
           try_except_pass (provide_labels_map ds) s1 = (None, s2) \<and>
           combiner (self s2) (results_v s2) = Inr v \<and> self s2 = e' \<and> heap s2 = h'"
proof -
  obtain r1 s1 where m: "cvte_main K e h ds = (r1, s1)" by (cases "cvte_main K e h ds")
  have r1: "r1 = None" using assms m by (cases r1) (simp_all add: cvte_call_def)
  obtain s2 where t: "try_except_pass (provide_labels_map ds) s1 = (None, s2)"
    by (simp add: try_except_pass_def)
  have rc: "return_combined s2 = (Inr v, e', h')"
    using assms m r1 t by (simp add: cvte_call_def)
  then have f: "combiner (self s2) (results_v s2) = Inr v \<and> self s2 = e' \<and> heap s2 = h'"
    by (auto simp: return_combined_def split: sum.splits)
  have "seq (run_folds K (splitter e ds))
      (seq rebind_transerror (seq restore_states store_results)) (prologue K ds e h)
        = (None, s1)"
    using m r1 by (simp add: cvte_main_def)
  then obtain s0 where "run_folds K (splitter e ds) (prologue K ds e h) = (None, s0)"
    "seq rebind_transerror (seq restore_states store_results) s0 = (None, s1)"
    by (rule seq_NoneE)
  then show ?thesis using t f by blast
qed

lemma returns_some_fold:
  assumes "cvte_call K e h ds = (Inr v, e', h')"
  shows "splitter e ds \<noteq> []"
proof
  assume "splitter e ds = []"
  then have "fst (cvte_call K e h ds) = Inl UnboundLocalError"
    by (simp add: cvte_call_def cvte_main_def seq_def rebind_transerror_def
          transerror_v_prologue)
  then show False using assms by simp
qed

text \<open>
  Claim C10. With \<^verbatim>\<open>expose_testdataset\<close> enabled and a classifier that has the
  \<^verbatim>\<open>testdataset\<close> attribute: when the call ends with an exception of the evaluation, the
  folds before the failing one were completed and the attribute is still bound to the test
  partition of the failing fold; when the call returns a value, the attribute holds
  \<^verbatim>\<open>None\<close>.
\<close>

theorem testdataset_stays_bound_when_evaluation_raises:
  fixes K :: "('r, 'm, 'd, 'c) collaborators" and e :: "('r, 'm, 'd, 'h, 'v) engine"
  assumes c: "cvte_call K e h ds = (r, e', h')"
    and x: "expose_testdataset e"
    and a: "testdataset (clfs h (clf (terrs h (transerror e)))) \<noteq> NoAttribute"
  shows "(\<forall>msg. r = Inl (EvaluationError msg) \<longrightarrow>
           (\<exists>pre split post s. splitter e ds = pre @ split # post \<and>
              run_folds K pre (prologue K ds e h) = (None, s) \<and>
              fst (fold_body K split s) = Some (EvaluationError msg) \<and>
              1 < length split \<and>
              testdataset (clfs h' (clf (terrs h (transerror e)))) = Attribute (split ! 1))) \<and>
         (\<forall>v. r = Inr v \<longrightarrow>
              testdataset (clfs h' (clf (terrs h (transerror e)))) = Attribute None)"
proof (intro conjI allI impI)
  fix msg
  assume r: "r = Inl (EvaluationError msg)"
  from cvte_call_raises [OF c [unfolded r]]
  obtain s' where m: "cvte_main K e h ds = (Some (EvaluationError msg), s')"
    and h': "heap s' = h'" by auto
  from cvte_main_raises [OF m]
  have l: "run_folds K (splitter e ds) (prologue K ds e h) = (Some (EvaluationError msg), s')"
    by auto
  from run_folds_error_split [OF l] obtain pre split post s1 where
    p: "splitter e ds = pre @ split # post" "run_folds K pre (prologue K ds e h) = (None, s1)"
       "fold_body K split s1 = (Some (EvaluationError msg), s')" by blast
  note loc = cfg_run_folds_locals [OF p(2)]
  have f: "clf_hastestdataset s1" "expose_testdataset_v s1" using loc x a by simp_all
  from fold_body_evaluation_error [OF p(3) f]
  have "1 < length split \<and>
        testdataset (clfs h' (clf (terrs h (transerror e)))) = Attribute (split ! 1)"
    by (simp add: h' loc(1))
  moreover have "fst (fold_body K split s1) = Some (EvaluationError msg)" using p(3) by simp
  ultimately show "\<exists>pre split post s. splitter e ds = pre @ split # post \<and>
              run_folds K pre (prologue K ds e h) = (None, s) \<and>
              fst (fold_body K split s) = Some (EvaluationError msg) \<and>
              1 < length split \<and>
              testdataset (clfs h' (clf (terrs h (transerror e)))) = Attribute (split ! 1)"
    using p(1,2) by blast
next
  fix v
  assume r: "r = Inr v"
  from cvte_call_returns [OF c [unfolded r]] obtain s0 s1 s2 where
    l: "run_folds K (splitter e ds) (prologue K ds e h) = (None, s0)"
    and af: "seq rebind_transerror (seq restore_states store_results) s0 = (None, s1)"
    and t: "try_except_pass (provide_labels_map ds) s1 = (None, s2)"
    and h': "heap s2 = h'" by blast
  have ne: "splitter e ds \<noteq> []" by (rule returns_some_fold [OF c [unfolded r]])
  then have sn: "splitter e ds = butlast (splitter e ds) @ [last (splitter e ds)]" by simp
  have "seq (run_folds K (butlast (splitter e ds))) (fold_body K (last (splitter e ds)))
          (prologue K ds e h) = (None, s0)"
    using l run_folds_snoc [of K "butlast (splitter e ds)" "last (splitter e ds)"
            "prologue K ds e h"] sn by simp
  then obtain sb where pb: "run_folds K (butlast (splitter e ds)) (prologue K ds e h) = (None, sb)"
    and lb: "fold_body K (last (splitter e ds)) sb = (None, s0)"
    by (rule seq_NoneE)
  note loc = cfg_run_folds_locals [OF pb]
  have f: "clf_hastestdataset sb" "expose_testdataset_v sb" using loc x a by simp_all
  have u: "testdataset (clfs (heap s0) (clf (terrs h (transerror e)))) = Attribute None"
    using fold_body_unbinds [OF lb f] by (simp add: loc(1))
  have pa: "preserves (\<lambda>s. clfs (heap s) = clfs (heap s0))
          (seq rebind_transerror (seq restore_states store_results))"
    by (intro preserves_seq clfs_after)
  have c1: "clfs (heap s1) = clfs (heap s0)"
    by (rule preservesD [where P = "\<lambda>s. clfs (heap s) = clfs (heap s0)" and s = s0,
          OF pa refl af])
  have c2: "clfs (heap s2) = clfs (heap s1)"
    by (rule preservesD [where P = "\<lambda>s. clfs (heap s) = clfs (heap s1)" and s = s1,
          OF clfs_after(4) refl t])
  show "testdataset (clfs h' (clf (terrs h (transerror e)))) = Attribute None"
    using u c1 c2 h' by simp
qed

theorem testdataset_stays_bound_when_evaluation_raises_witness:
  "expose_testdataset (ex_engine {} True ex_folds_bad) \<and>
   testdataset (clfs ex_heap (clf (terrs ex_heap (transerror (ex_engine {} True ex_folds_bad)))))
     \<noteq> NoAttribute \<and>
   fst (cvte_call ex_K (ex_engine {} True ex_folds_bad) ex_heap ex_dataset)
     = Inl (EvaluationError ''empty test dataset'') \<and>
   testdataset (clfs (snd (snd (cvte_call ex_K (ex_engine {} True ex_folds_bad) ex_heap
                                  ex_dataset))) 0) = Attribute (ex_fold_bad ! 1) \<and>
   (\<exists>pre split post.
      splitter (ex_engine {} True ex_folds_bad) ex_dataset = pre @ split # post \<and>
      1 < length split \<and>
      testdataset (clfs (snd (snd (cvte_call ex_K (ex_engine {} True ex_folds_bad) ex_heap
                                     ex_dataset)))
                     (clf (terrs ex_heap (transerror (ex_engine {} True ex_folds_bad)))))
        = Attribute (split ! 1))"
proof -
  let ?e = "ex_engine {} True ex_folds_bad"
  have x: "expose_testdataset ?e" by (simp add: ex_engine_def)
  have a: "testdataset (clfs ex_heap (clf (terrs ex_heap (transerror ?e)))) \<noteq> NoAttribute"
    by (simp add: ex_defs)
  have r: "fst (cvte_call ex_K ?e ex_heap ex_dataset)
             = Inl (EvaluationError ''empty test dataset'')"
    by (simp add: run_defs ex_defs ex_folds_bad_def ex_fold_bad_def ex_fold1_def)
  have b: "testdataset (clfs (snd (snd (cvte_call ex_K ?e ex_heap ex_dataset))) 0)
             = Attribute (ex_fold_bad ! 1)"
    by (simp add: run_defs ex_defs ex_folds_bad_def ex_fold_bad_def ex_fold1_def)
  have c: "cvte_call ex_K ?e ex_heap ex_dataset =
             (Inl (EvaluationError ''empty test dataset''),
              fst (snd (cvte_call ex_K ?e ex_heap ex_dataset)),
              snd (snd (cvte_call ex_K ?e ex_heap ex_dataset)))"
    using r by (metis prod.collapse)
  note t = testdataset_stays_bound_when_evaluation_raises [OF c x a]
  from t have "\<exists>pre split post s. splitter ?e ex_dataset = pre @ split # post \<and>
      run_folds ex_K pre (prologue ex_K ex_dataset ?e ex_heap) = (None, s) \<and>
      fst (fold_body ex_K split s) = Some (EvaluationError ''empty test dataset'') \<and>
      1 < length split \<and>
      testdataset (clfs (snd (snd (cvte_call ex_K ?e ex_heap ex_dataset)))
                     (clf (terrs ex_heap (transerror ?e)))) = Attribute (split ! 1)"
    by blast
  then have "\<exists>pre split post. splitter ?e ex_dataset = pre @ split # post \<and>
      1 < length split \<and>
      testdataset (clfs (snd (snd (cvte_call ex_K ?e ex_heap ex_dataset)))
                     (clf (terrs ex_heap (transerror ?e)))) = Attribute (split ! 1)"
    by blast
  then show ?thesis using x a r b by blast
qed

subsection \<open>Which classifier receives the exposed test dataset\<close>

lemma call_transerror_frame:
  "clf (terrs (snd (call_transerror K a test train h)) b) = clf (terrs h b)"
  "next_terr (snd (call_transerror K a test train h)) = next_terr h"
  "next_clf (snd (call_transerror K a test train h)) = next_clf h"
  by (simp_all add: call_transerror_def Let_def split: sum.splits)

lemma run_the_beast_heap_cases:
  "heap (snd (run_the_beast K split s)) = heap s \<or>
   (\<exists>a test train. heap (snd (run_the_beast K split s))
        = snd (call_transerror K a test train (heap s)))"
proof (cases "transerror_v s")
  case None
  then show ?thesis by (simp add: run_the_beast_def)
next
  case (Some a)
  show ?thesis
  proof (cases "item split 1")
    case (Inl e1)
    then show ?thesis using Some by (simp add: run_the_beast_def)
  next
    case test: (Inr test)
    show ?thesis
    proof (cases "item split 0")
      case (Inl e0)
      then show ?thesis using Some test by (simp add: run_the_beast_def)
    next
      case train: (Inr train)
      obtain r h where c: "call_transerror K a test train (heap s) = (r, h)"
        by (cases "call_transerror K a test train (heap s)")
      have "heap (snd (run_the_beast K split s)) = h"
        using Some test train c by (cases r) (simp_all add: run_the_beast_def)
      then have "heap (snd (run_the_beast K split s))
                   = snd (call_transerror K a test train (heap s))"
        using c by simp
      then show ?thesis by blast
    qed
  qed
qed

lemma run_the_beast_frame:
  "clf (terrs (heap (snd (run_the_beast K split s))) b) = clf (terrs (heap s) b)"
  "next_terr (heap (snd (run_the_beast K split s))) = next_terr (heap s)"
  "next_clf (heap (snd (run_the_beast K split s))) = next_clf (heap s)"
  "self (snd (run_the_beast K split s)) = self s"
  "clf_v (snd (run_the_beast K split s)) = clf_v s"
proof -
  show "clf (terrs (heap (snd (run_the_beast K split s))) b) = clf (terrs (heap s) b)"
    using run_the_beast_heap_cases [of K split s] by (auto simp: call_transerror_frame)
  show "next_terr (heap (snd (run_the_beast K split s))) = next_terr (heap s)"
    using run_the_beast_heap_cases [of K split s] by (auto simp: call_transerror_frame)
  show "next_clf (heap (snd (run_the_beast K split s))) = next_clf (heap s)"
    using run_the_beast_heap_cases [of K split s] by (auto simp: call_transerror_frame)
  show "self (snd (run_the_beast K split s)) = self s"
    "clf_v (snd (run_the_beast K split s)) = clf_v s"
    by (simp_all add: run_the_beast_def split: option.splits sum.splits prod.splits)
qed

lemma refs_ok_run_the_beast: "preserves refs_ok (run_the_beast K split)"
  by (simp add: preserves_def refs_ok_def run_the_beast_frame)

lemma refs_ok_select_transerror: "preserves refs_ok (select_transerror split)"
  by (auto simp: preserves_def refs_ok_def select_transerror_def deepcopy_def Let_def
        split: sum.splits)

lemma refs_ok_steps:
  "preserves refs_ok (store_split split)"
  "preserves refs_ok (bind_testdataset split)"
  "preserves refs_ok unbind_testdataset"
  "preserves refs_ok (harvest_locals split)"
  "preserves refs_ok store_transerror"
  "preserves refs_ok pull_samples_error"
  "preserves refs_ok (pull_confusion K)"
  "preserves refs_ok (pull_training_confusion K)"
  "preserves refs_ok append_result"
  by (simp_all add: preserves_def refs_ok_def body_defs
        split: sum.splits option.splits prod.splits)

lemma refs_ok_fold_body: "preserves refs_ok (fold_body K split)"
  by (rule preserves_fold_body)
     (rule refs_ok_steps refs_ok_select_transerror refs_ok_run_the_beast)+

lemma refs_ok_prologue:
  assumes "transerror e < next_terr h" "clf (terrs h (transerror e)) < next_clf h"
  shows "refs_ok (prologue K ds e h)"
  using assms by (simp add: refs_ok_def prologue_def Let_def changeTemporarily_def)

lemma refs_ok_run_folds:
  assumes "transerror e < next_terr h" "clf (terrs h (transerror e)) < next_clf h"
    and "run_folds K folds (prologue K ds e h) = (r, s)"
  shows "refs_ok s"
  by (rule preservesD [OF preserves_run_folds [OF refs_ok_fold_body]
        refs_ok_prologue [OF assms(1,2)] assms(3)])

lemma store_split_frame:
  assumes "store_split split s = (r, sa)"
  shows "r = None" "heap sa = heap s" "transerror (self sa) = transerror (self s)"
    "enabled (self sa) = enabled (self s)"
  using assms by (auto simp: store_split_def split: if_splits)

lemma run_the_beast_outcome:
  assumes "transerror_v s = Some a" "1 < length split"
  shows "fst (run_the_beast K split s) =
           (case eo_result (evaluate K (clfs (heap s) (clf (terrs (heap s) a)))
                              (split ! 1) (split ! 0)) of
              Inl msg \<Rightarrow> Some (EvaluationError msg)
            | Inr r \<Rightarrow> None)"
proof -
  have i: "item split (Suc 0) = Inr (split ! Suc 0)" "item split 0 = Inr (split ! 0)"
    using assms(2) by (auto simp: item_def)
  show ?thesis
    by (simp add: run_the_beast_def i assms(1) call_transerror_def Let_def split: sum.splits)
qed

text \<open>
  Claim C9. Take a frame reached after some completed folds, with \<^verbatim>\<open>transerrors\<close> and
  \<^verbatim>\<open>expose_testdataset\<close> enabled and a classifier that has the attribute, and a next fold
  that is not marked as the last one. When line 191 is reached, the local
  \<^verbatim>\<open>transerror\<close> is the fresh copy, whose classifier is a fresh object different from the
  one bound to \<^verbatim>\<open>clf\<close>; the test partition has been assigned to the classifier bound to
  \<^verbatim>\<open>clf\<close>, which is the classifier of the engine's own TransferError; the classifier of
  the copy is the object the original classifier was before the assignment, and the
  evaluation is computed from that object. After the body, the original classifier's
  attribute is \<^verbatim>\<open>None\<close> again and the copy's attribute is what it was.
\<close>

theorem exposed_partition_misses_evaluating_classifier:
  fixes K :: "('r, 'm, 'd, 'c) collaborators" and e :: "('r, 'm, 'd, 'h, 'v) engine"
  assumes reach: "run_folds K pre (prologue K ds e h) = (None, s)"
    and en: "''transerrors'' \<in> enabled e"
    and ex: "expose_testdataset e"
    and has: "testdataset (clfs h (clf (terrs h (transerror e)))) \<noteq> NoAttribute"
    and wf: "transerror e < next_terr h" "clf (terrs h (transerror e)) < next_clf h"
    and nl: "find_lastsplit split = Inr m" "m \<noteq> Some True"
    and len: "1 < length split"
    and st: "seq (store_split split) (seq (select_transerror split) (bind_testdataset split)) s
               = (r1, s1)"
  shows "r1 = None \<and>
         clf_v s1 = clf (terrs h (transerror e)) \<and>
         clf (terrs (heap s1) (transerror e)) = clf_v s1 \<and>
         testdataset (clfs (heap s1) (clf_v s1)) = Attribute (split ! 1) \<and>
         transerror_v s1 = Some (next_terr (heap s)) \<and>
         next_terr (heap s) \<noteq> transerror e \<and>
         clf (terrs (heap s1) (next_terr (heap s))) = next_clf (heap s) \<and>
         next_clf (heap s) \<noteq> clf_v s1 \<and>
         clfs (heap s1) (next_clf (heap s)) = clfs (heap s) (clf_v s1) \<and>
         fst (run_the_beast K split s1) =
           (case eo_result (evaluate K (clfs (heap s) (clf_v s1)) (split ! 1) (split ! 0)) of
              Inl msg \<Rightarrow> Some (EvaluationError msg)
            | Inr r \<Rightarrow> None) \<and>
         (\<forall>s'. body_after_select K split (snd (select_transerror split (snd (store_split split s))))
                 = (None, s') \<longrightarrow>
               testdataset (clfs (heap s') (clf_v s1)) = Attribute None)"
proof -
  note loc = cfg_run_folds_locals [OF reach]
  have ok: "refs_ok s" by (rule refs_ok_run_folds [OF wf reach])
  have cfg: "frame_cfg s = frame_cfg (prologue K ds e h)"
    using cfg_run_folds [of K pre "prologue K ds e h"] reach by simp
  have te: "transerror (self s) = transerror e" and ens: "enabled (self s) = enabled e"
    using cfg unfolding cfg_prologue by (simp_all add: frame_cfg_def)
  have r1: "transerror e < next_terr (heap s)" "clf_v s < next_clf (heap s)"
    "clf (terrs (heap s) (transerror e)) = clf_v s"
    using ok te by (simp_all add: refs_ok_def)
  obtain ra sa where sa: "store_split split s = (ra, sa)" by (cases "store_split split s")
  note fa = store_split_frame [OF sa]
  have ca: "frame_cfg sa = frame_cfg s" by (rule cfg_step [OF cfg_steps(1) sa])
  note la = frame_cfg_locals [OF ca]
  obtain rb sb where sb: "select_transerror split sa = (rb, sb)"
    by (cases "select_transerror split sa")
  have ena: "isEnabled ''transerrors'' (self sa)"
    using en ens fa(4) by (simp add: isEnabled_def)
  have nlt: "find_lastsplit split \<noteq> Inr (Some True)" using nl by simp
  have rb: "rb = None"
    using sb ena nl
    by (auto simp: select_transerror_def deepcopy_def Let_def split: if_splits)
  note cp = select_transerror_copy [OF sb [unfolded rb] ena nlt]
  have cb: "frame_cfg sb = frame_cfg sa" by (rule cfg_step [OF cfg_steps(2) sb])
  have cbs: "frame_cfg sb = frame_cfg s" using ca cb by simp
  note lb = frame_cfg_locals [OF cbs]
  have fb: "clf_hastestdataset sb" "expose_testdataset_v sb" using loc ex has lb by simp_all
  have sc: "bind_testdataset split sb = (None, set_testdataset (split ! 1) sb)"
    using fb len by (simp add: bind_testdataset_def item_def)
  have s1: "r1 = None" "s1 = set_testdataset (split ! 1) sb"
    using st sa sb sc fa(1) rb by (simp_all add: seq_def)
  have cv: "clf_v s1 = clf_v s" using s1(2) lb(1) by (simp add: set_testdataset_def)
  have ne_t: "next_terr (heap s) \<noteq> transerror e" using r1(1) by simp
  have ne_c: "next_clf (heap s) \<noteq> clf_v s" using r1(2) by simp
  have hb_t: "terrs (heap sb) = (terrs (heap s))(next_terr (heap s) :=
               (terrs (heap s) (transerror e))\<lparr>clf := next_clf (heap s)\<rparr>)"
    using cp(2) fa(2,3) te by simp
  have hb_c: "clfs (heap sb) = (clfs (heap s))(next_clf (heap s) := clfs (heap s) (clf_v s))"
    using cp(3) fa(2,3) te r1(3) by simp
  have h1_t: "terrs (heap s1) = terrs (heap sb)" using s1(2) by (simp add: set_testdataset_def)
  have h1_c: "clfs (heap s1) = (clfs (heap sb))(clf_v s :=
               (clfs (heap sb) (clf_v s))\<lparr>testdataset := Attribute (split ! 1)\<rparr>)"
    using s1(2) lb(1) by (simp add: set_testdataset_def)
  have tv: "transerror_v s1 = Some (next_terr (heap s))"
    using s1(2) cp(1) fa(2) by (simp add: set_testdataset_def)
  have a1: "clf (terrs (heap s1) (transerror e)) = clf_v s1"
    using ne_t r1(3) by (simp add: h1_t hb_t cv)
  have a2: "testdataset (clfs (heap s1) (clf_v s1)) = Attribute (split ! 1)"
    by (simp add: h1_c cv)
  have a3: "clf (terrs (heap s1) (next_terr (heap s))) = next_clf (heap s)"
    by (simp add: h1_t hb_t)
  have a4: "clfs (heap s1) (next_clf (heap s)) = clfs (heap s) (clf_v s1)"
    using ne_c by (simp add: h1_c hb_c cv)
  have a5: "fst (run_the_beast K split s1) =
           (case eo_result (evaluate K (clfs (heap s) (clf_v s1)) (split ! 1) (split ! 0)) of
              Inl msg \<Rightarrow> Some (EvaluationError msg)
            | Inr r \<Rightarrow> None)"
    using run_the_beast_outcome [OF tv len, of K] by (simp add: a3 a4)
  have a6: "\<forall>s'. body_after_select K split (snd (select_transerror split (snd (store_split split s))))
                 = (None, s') \<longrightarrow>
               testdataset (clfs (heap s') (clf_v s1)) = Attribute None"
  proof (intro allI impI)
    fix s'
    assume "body_after_select K split (snd (select_transerror split (snd (store_split split s))))
              = (None, s')"
    then have "body_after_select K split sb = (None, s')" using sa sb by simp
    then have "fold_body K split s = (None, s')"
      using sa sb fa(1) rb by (simp add: fold_body_eq seq_def)
    from fold_body_unbinds [OF this] loc ex has
    show "testdataset (clfs (heap s') (clf_v s1)) = Attribute None" by (simp add: cv)
  qed
  show ?thesis
    using s1(1) cv loc(1) a1 a2 tv ne_t a3 ne_c a4 a5 a6 by simp
qed

theorem exposed_partition_misses_evaluating_classifier_witness:
  "run_folds ex_K [] (prologue ex_K ex_dataset (ex_engine {''transerrors''} True ex_folds) ex_heap)
     = (None, ex_frame) \<and>
   ''transerrors'' \<in> enabled (ex_engine {''transerrors''} True ex_folds) \<and>
   expose_testdataset (ex_engine {''transerrors''} True ex_folds) \<and>
   find_lastsplit ex_fold1 = Inr (Some False) \<and>
   1 < length ex_fold1 \<and>
   next_terr (heap ex_frame) = 1 \<and> next_clf (heap ex_frame) = 1 \<and>
   testdataset (clfs (heap ex_frame) 0) = Attribute None \<and>
   clf_v (snd (seq (store_split ex_fold1)
                 (seq (select_transerror ex_fold1) (bind_testdataset ex_fold1)) ex_frame)) = 0 \<and>
   testdataset (clfs (heap (snd (seq (store_split ex_fold1)
       (seq (select_transerror ex_fold1) (bind_testdataset ex_fold1)) ex_frame)))
     (clf_v (snd (seq (store_split ex_fold1)
       (seq (select_transerror ex_fold1) (bind_testdataset ex_fold1)) ex_frame))))
     = Attribute (ex_fold1 ! 1) \<and>
   transerror_v (snd (seq (store_split ex_fold1)
       (seq (select_transerror ex_fold1) (bind_testdataset ex_fold1)) ex_frame))
     = Some (next_terr (heap ex_frame)) \<and>
   clf (terrs (heap (snd (seq (store_split ex_fold1)
       (seq (select_transerror ex_fold1) (bind_testdataset ex_fold1)) ex_frame)))
     (next_terr (heap ex_frame))) = next_clf (heap ex_frame) \<and>
   clfs (heap (snd (seq (store_split ex_fold1)
       (seq (select_transerror ex_fold1) (bind_testdataset ex_fold1)) ex_frame)))
     (next_clf (heap ex_frame))
     = clfs (heap ex_frame) (clf_v (snd (seq (store_split ex_fold1)
       (seq (select_transerror ex_fold1) (bind_testdataset ex_fold1)) ex_frame)))"
proof -
  let ?e = "ex_engine {''transerrors''} True ex_folds"
  let ?s1 = "snd (seq (store_split ex_fold1)
       (seq (select_transerror ex_fold1) (bind_testdataset ex_fold1)) ex_frame)"
  have reach: "run_folds ex_K [] (prologue ex_K ex_dataset ?e ex_heap) = (None, ex_frame)"
    by (simp add: ex_frame_def)
  have en: "''transerrors'' \<in> enabled ?e" and ex: "expose_testdataset ?e"
    by (simp_all add: ex_engine_def)
  have has: "testdataset (clfs ex_heap (clf (terrs ex_heap (transerror ?e)))) \<noteq> NoAttribute"
    by (simp add: ex_defs)
  have wf: "transerror ?e < next_terr ex_heap" "clf (terrs ex_heap (transerror ?e)) < next_clf ex_heap"
    by (simp_all add: ex_defs)
  have nl: "find_lastsplit ex_fold1 = Inr (Some False)" "Some False \<noteq> Some True"
    by (simp_all add: ex_fold1_def ex_ds_def)
  have len: "1 < length ex_fold1" by (simp add: ex_fold1_def)
  have st: "seq (store_split ex_fold1)
       (seq (select_transerror ex_fold1) (bind_testdataset ex_fold1)) ex_frame
      = (fst (seq (store_split ex_fold1)
       (seq (select_transerror ex_fold1) (bind_testdataset ex_fold1)) ex_frame), ?s1)"
    by simp
  have c: "next_terr (heap ex_frame) = 1" "next_clf (heap ex_frame) = 1"
    "testdataset (clfs (heap ex_frame) 0) = Attribute None"
    "clf (terrs ex_heap (transerror ?e)) = 0"
    by (simp_all add: ex_frame_def run_defs ex_defs)
  note t = exposed_partition_misses_evaluating_classifier
             [OF reach en ex has wf nl len st]
  have v: "clf_v ?s1 = 0" using t c(4) by simp
  show ?thesis
    using reach en ex nl(1) len c(1,2,3) v t by blast
qed

subsection \<open>The instance the engine retains\<close>

lemma used_steps:
  "preserves (\<lambda>s. transerrors (self s) = x \<and> transerror_v s = a) (bind_testdataset split)"
  "preserves (\<lambda>s. transerrors (self s) = x \<and> transerror_v s = a) (run_the_beast K split)"
  "preserves (\<lambda>s. transerrors (self s) = x \<and> transerror_v s = a) unbind_testdataset"
  "preserves (\<lambda>s. transerrors (self s) = x \<and> transerror_v s = a) (harvest_locals split)"
  "preserves (\<lambda>s. transerrors (self s) = x \<and> transerror_v s = a) pull_samples_error"
  "preserves (\<lambda>s. transerrors (self s) = x \<and> transerror_v s = a) (pull_confusion K)"
  "preserves (\<lambda>s. transerrors (self s) = x \<and> transerror_v s = a) (pull_training_confusion K)"
  "preserves (\<lambda>s. transerrors (self s) = x \<and> transerror_v s = a) append_result"
  by (simp_all add: preserves_def body_defs call_transerror_def Let_def
        split: sum.splits option.splits prod.splits)

lemma used_before_store:
  "preserves (\<lambda>s. transerrors (self s) = x \<and> transerror_v s = a)
     (seq (bind_testdataset split) (seq (run_the_beast K split)
        (seq unbind_testdataset (harvest_locals split))))"
  by (intro preserves_seq used_steps)

lemma used_after_store:
  "preserves (\<lambda>s. transerrors (self s) = x \<and> transerror_v s = a)
     (seq pull_samples_error (seq (pull_confusion K)
        (seq (pull_training_confusion K) append_result)))"
  by (intro preserves_seq used_steps)

lemma seq_assoc: "seq (seq f g) k = seq f (seq g k)"
  by (rule ext) (simp add: seq_def split: prod.splits option.splits)

lemma body_after_select_eq:
  "body_after_select K split =
     seq (seq (bind_testdataset split) (seq (run_the_beast K split)
            (seq unbind_testdataset (harvest_locals split))))
         (seq store_transerror
            (seq pull_samples_error (seq (pull_confusion K)
               (seq (pull_training_confusion K) append_result))))"
  by (simp add: body_after_select_def body_collect_def seq_assoc)

lemma store_transerror_effect:
  assumes "store_transerror s = (None, s')"
  shows "transerror_v s' = transerror_v s"
    and "isEnabled ''transerrors'' (self s) \<Longrightarrow>
         \<exists>a. transerror_v s = Some a \<and> transerrors (self s') = transerrors (self s) @ [a]"
    and "\<not> isEnabled ''transerrors'' (self s) \<Longrightarrow> transerrors (self s') = transerrors (self s)"
  using assms by (auto simp: store_transerror_def split: if_splits option.splits)

lemma body_after_select_used:
  fixes s :: "('r, 'm, 'd, 'c, 'h, 'v) frame"
  assumes b: "body_after_select K split s = (None, s')"
  shows "transerror_v s' = transerror_v s"
    and "isEnabled ''transerrors'' (self s) \<Longrightarrow>
         \<exists>a. transerror_v s = Some a \<and> transerrors (self s') = transerrors (self s) @ [a]"
proof -
  from b [unfolded body_after_select_eq] obtain s1 where
    p1: "seq (bind_testdataset split) (seq (run_the_beast K split)
            (seq unbind_testdataset (harvest_locals split))) s = (None, s1)"
    and r1: "seq store_transerror
            (seq pull_samples_error (seq (pull_confusion K)
               (seq (pull_training_confusion K) append_result))) s1 = (None, s')"
    by (rule seq_NoneE)
  from r1 obtain s2 where p2: "store_transerror s1 = (None, s2)"
    and p3: "seq pull_samples_error (seq (pull_confusion K)
               (seq (pull_training_confusion K) append_result)) s2 = (None, s')"
    by (rule seq_NoneE)
  have q1: "transerrors (self s) = transerrors (self s) \<and> transerror_v s = transerror_v s"
    by simp
  have k1: "transerrors (self s1) = transerrors (self s) \<and> transerror_v s1 = transerror_v s"
    by (rule preservesD [where P = "\<lambda>t. transerrors (self t) = transerrors (self s) \<and>
          transerror_v t = transerror_v s" and s = s, OF used_before_store q1 p1])
  have q3: "transerrors (self s2) = transerrors (self s2) \<and> transerror_v s2 = transerror_v s2"
    by simp
  have k3: "transerrors (self s') = transerrors (self s2) \<and> transerror_v s' = transerror_v s2"
    by (rule preservesD [where P = "\<lambda>t. transerrors (self t) = transerrors (self s2) \<and>
          transerror_v t = transerror_v s2" and s = s2, OF used_after_store q3 p3])
  have ph: "preserves (\<lambda>t. frame_cfg t = frame_cfg s) (harvest_locals split)"
    by (simp add: preserves_def frame_cfg_def harvest_locals_def
          split: sum.splits option.splits)
  have pc: "preserves (\<lambda>t. frame_cfg t = frame_cfg s)
     (seq (bind_testdataset split) (seq (run_the_beast K split)
        (seq unbind_testdataset (harvest_locals split))))"
    by (intro preserves_seq cfg_steps ph)
  have c1: "frame_cfg s1 = frame_cfg s" by (rule cfg_step [OF pc p1])
  have e1: "isEnabled ''transerrors'' (self s1) = isEnabled ''transerrors'' (self s)"
    using c1 by (simp add: frame_cfg_def isEnabled_def)
  note st = store_transerror_effect [OF p2]
  show "transerror_v s' = transerror_v s" using k1 k3 st(1) by simp
  show "\<exists>a. transerror_v s = Some a \<and> transerrors (self s') = transerrors (self s) @ [a]"
    if "isEnabled ''transerrors'' (self s)"
    using st(2) that e1 k1 k3 by auto
qed

lemma fold_body_used:
  fixes s :: "('r, 'm, 'd, 'c, 'h, 'v) frame"
  assumes b: "fold_body K split s = (None, s')"
  shows "isEnabled ''transerrors'' (self s) \<Longrightarrow>
           \<exists>a. transerror_v s' = Some a \<and> transerrors (self s') = transerrors (self s) @ [a] \<and>
               (find_lastsplit split = Inr (Some True) \<longrightarrow> a = transerror (self s))"
    and "\<not> isEnabled ''transerrors'' (self s) \<Longrightarrow> transerror_v s' = Some (transerror (self s))"
proof -
  from b [unfolded fold_body_eq] obtain sa where sa: "store_split split s = (None, sa)"
    and b1: "seq (select_transerror split) (body_after_select K split) sa = (None, s')"
    by (rule seq_NoneE)
  from b1 obtain sb where sb: "select_transerror split sa = (None, sb)"
    and b2: "body_after_select K split sb = (None, s')"
    by (rule seq_NoneE)
  have fa: "transerror (self sa) = transerror (self s)" "enabled (self sa) = enabled (self s)"
    "transerrors (self sa) = transerrors (self s)"
    using sa by (auto simp: store_split_def split: if_splits)
  have ea: "isEnabled ''transerrors'' (self sa) = isEnabled ''transerrors'' (self s)"
    using fa(2) by (simp add: isEnabled_def)
  have fb: "self sb = self sa"
    using sb by (auto simp: select_transerror_def deepcopy_def Let_def
          split: if_splits sum.splits)
  note u = body_after_select_used [OF b2]
  show "\<exists>a. transerror_v s' = Some a \<and> transerrors (self s') = transerrors (self s) @ [a] \<and>
               (find_lastsplit split = Inr (Some True) \<longrightarrow> a = transerror (self s))"
    if en: "isEnabled ''transerrors'' (self s)"
  proof -
    from u(2) en ea fb obtain a where a: "transerror_v sb = Some a"
      "transerrors (self s') = transerrors (self sb) @ [a]" by auto
    have "find_lastsplit split = Inr (Some True) \<longrightarrow> a = transerror (self s)"
      using select_transerror_own(1) [OF sb] a(1) fa(1) by auto
    then show ?thesis using a u(1) fb fa(3) by simp
  qed
  show "transerror_v s' = Some (transerror (self s))"
    if "\<not> isEnabled ''transerrors'' (self s)"
    using select_transerror_own(1) [OF sb] that ea u(1) fa(1) by simp
qed

lemma cfg_run_folds_self:
  assumes "run_folds K folds s = (r, s')"
  shows "transerror (self s') = transerror (self s)"
    and "isEnabled ''transerrors'' (self s') = isEnabled ''transerrors'' (self s)"
proof -
  have "frame_cfg s' = frame_cfg s" using cfg_run_folds [of K folds s] assms by simp
  then show "transerror (self s') = transerror (self s)"
    and "isEnabled ''transerrors'' (self s') = isEnabled ''transerrors'' (self s)"
    by (simp_all add: frame_cfg_def isEnabled_def)
qed

lemma run_folds_used:
  fixes s :: "('r, 'm, 'd, 'c, 'h, 'v) frame"
  assumes "run_folds K folds s = (None, s')" "isEnabled ''transerrors'' (self s)"
  shows "length (transerrors (self s')) = length (transerrors (self s)) + length folds \<and>
         (folds \<noteq> [] \<longrightarrow>
            transerror_v s' = Some (last (transerrors (self s'))) \<and>
            (find_lastsplit (last folds) = Inr (Some True) \<longrightarrow>
               transerror_v s' = Some (transerror (self s))))"
  using assms(1)
proof (induction folds arbitrary: s' rule: rev_induct)
  case Nil
  then show ?case by simp
next
  case (snoc split folds)
  from snoc.prems have "seq (run_folds K folds) (fold_body K split) s = (None, s')"
    by (simp add: run_folds_snoc)
  then obtain sm where m: "run_folds K folds s = (None, sm)"
    and b: "fold_body K split sm = (None, s')"
    by (rule seq_NoneE)
  note c = cfg_run_folds_self [OF m]
  have en: "isEnabled ''transerrors'' (self sm)" using c(2) assms(2) by simp
  from fold_body_used(1) [OF b en] obtain a where a: "transerror_v s' = Some a"
    "transerrors (self s') = transerrors (self sm) @ [a]"
    "find_lastsplit split = Inr (Some True) \<longrightarrow> a = transerror (self sm)" by blast
  have "length (transerrors (self sm)) = length (transerrors (self s)) + length folds"
    using snoc.IH [OF m] by simp
  then show ?case using a c(1) by simp
qed

lemma run_folds_unused:
  fixes s :: "('r, 'm, 'd, 'c, 'h, 'v) frame"
  assumes "run_folds K folds s = (None, s')" "\<not> isEnabled ''transerrors'' (self s)"
    and "folds \<noteq> []"
  shows "transerror_v s' = Some (transerror (self s))"
proof -
  have f: "folds = butlast folds @ [last folds]" using assms(3) by simp
  have "seq (run_folds K (butlast folds)) (fold_body K (last folds)) s = (None, s')"
    using assms(1) run_folds_snoc [of K "butlast folds" "last folds" s] f by simp
  then obtain sm where m: "run_folds K (butlast folds) s = (None, sm)"
    and b: "fold_body K (last folds) sm = (None, s')"
    by (rule seq_NoneE)
  note c = cfg_run_folds_self [OF m]
  have "\<not> isEnabled ''transerrors'' (self sm)" using c(2) assms(2) by simp
  from fold_body_used(2) [OF b this] show ?thesis using c(1) by simp
qed

lemma after_loop_retained:
  assumes "seq rebind_transerror (seq restore_states store_results) s0 = (None, s1)"
  shows "transerror_v s0 = Some (transerror (self s1))"
    and "transerrors (self s1) = transerrors (self s0)"
proof -
  from assms obtain sa where a: "rebind_transerror s0 = (None, sa)"
    and r: "seq restore_states store_results sa = (None, s1)"
    by (rule seq_NoneE)
  from r obtain sb where b: "restore_states sa = (None, sb)"
    and c: "store_results sb = (None, s1)"
    by (rule seq_NoneE)
  have 1: "transerror_v s0 = Some (transerror (self sa))"
    "transerrors (self sa) = transerrors (self s0)"
    using a by (auto simp: rebind_transerror_def split: option.splits)
  have 2: "self sb = self sa"
    using b by (auto simp: restore_states_def split: if_splits sum.splits)
  have 3: "transerror (self s1) = transerror (self sb)"
    "transerrors (self s1) = transerrors (self sb)"
    using c by (auto simp: store_results_def split: if_splits)
  show "transerror_v s0 = Some (transerror (self s1))"
    and "transerrors (self s1) = transerrors (self s0)"
    using 1 2 3 by simp_all
qed

lemma labels_retained:
  "transerror (self (snd (try_except_pass (provide_labels_map ds) s))) = transerror (self s)"
  "transerrors (self (snd (try_except_pass (provide_labels_map ds) s))) = transerrors (self s)"
  by (simp_all add: try_except_pass_def provide_labels_map_def provide_confusion_labels_def
        provide_training_confusion_labels_def seq_def split: attribute.splits)

lemma prologue_used:
  "transerror (self (prologue K ds e h)) = transerror e"
  "isEnabled ''transerrors'' (self (prologue K ds e h)) = (''transerrors'' \<in> enabled e)"
  "''transerrors'' \<in> enabled e \<Longrightarrow> transerrors (self (prologue K ds e h)) = []"
  by (simp_all add: prologue_def Let_def isEnabled_def)

text \<open>
  Claim C5. After a call that returns, hence has processed at least one fold: with
  \<^verbatim>\<open>transerrors\<close> enabled the accumulator lists the evaluating instance of every fold in
  order, the instance the engine retains is its last entry, the one that evaluated the
  final fold, and it is the engine's original instance when that fold carries the marker
  of the last fold; with \<^verbatim>\<open>transerrors\<close> disabled the retained instance is the original
  one.
\<close>

theorem retained_instance:
  fixes K :: "('r, 'm, 'd, 'c) collaborators" and e :: "('r, 'm, 'd, 'h, 'v) engine"
  assumes c: "cvte_call K e h ds = (Inr v, e', h')"
  shows "splitter e ds \<noteq> [] \<and>
         (''transerrors'' \<in> enabled e \<longrightarrow>
            length (transerrors e') = length (splitter e ds) \<and>
            transerror e' = last (transerrors e') \<and>
            (find_lastsplit (last (splitter e ds)) = Inr (Some True) \<longrightarrow>
               transerror e' = transerror e)) \<and>
         (''transerrors'' \<notin> enabled e \<longrightarrow> transerror e' = transerror e)"
proof -
  from cvte_call_returns [OF c] obtain s0 s1 s2 where
    l: "run_folds K (splitter e ds) (prologue K ds e h) = (None, s0)"
    and af: "seq rebind_transerror (seq restore_states store_results) s0 = (None, s1)"
    and t: "try_except_pass (provide_labels_map ds) s1 = (None, s2)"
    and e': "self s2 = e'" by blast
  have ne: "splitter e ds \<noteq> []" by (rule returns_some_fold [OF c])
  note ar = after_loop_retained [OF af]
  have s2: "s2 = snd (try_except_pass (provide_labels_map ds) s1)" using t by simp
  have r1: "transerror e' = transerror (self s1)" "transerrors e' = transerrors (self s1)"
    using e' labels_retained [of ds s1] s2 by simp_all
  have on: "length (transerrors e') = length (splitter e ds) \<and>
            transerror e' = last (transerrors e') \<and>
            (find_lastsplit (last (splitter e ds)) = Inr (Some True) \<longrightarrow>
               transerror e' = transerror e)"
    if en: "''transerrors'' \<in> enabled e"
  proof -
    have en0: "isEnabled ''transerrors'' (self (prologue K ds e h))"
      using en by (simp add: prologue_used)
    from run_folds_used [OF l en0] ne
    have u: "length (transerrors (self s0)) = length (splitter e ds)"
      "transerror_v s0 = Some (last (transerrors (self s0)))"
      "find_lastsplit (last (splitter e ds)) = Inr (Some True) \<longrightarrow>
         last (transerrors (self s0)) = transerror e"
      by (auto simp: prologue_used en)
    show ?thesis using u ar r1 by auto
  qed
  have off: "transerror e' = transerror e" if "''transerrors'' \<notin> enabled e"
  proof -
    have "\<not> isEnabled ''transerrors'' (self (prologue K ds e h))"
      using that by (simp add: prologue_used)
    from run_folds_unused [OF l this ne] show ?thesis
      using ar(1) r1(1) by (simp add: prologue_used)
  qed
  show ?thesis using ne on off by blast
qed

theorem retained_instance_witness:
  "fst (cvte_call ex_K (ex_engine {''transerrors''} False ex_folds) ex_heap ex_dataset) = Inr 14 \<and>
   find_lastsplit (last (splitter (ex_engine {''transerrors''} False ex_folds) ex_dataset))
     = Inr (Some True) \<and>
   transerrors (fst (snd (cvte_call ex_K (ex_engine {''transerrors''} False ex_folds) ex_heap
                            ex_dataset))) = [1, 0] \<and>
   transerror (fst (snd (cvte_call ex_K (ex_engine {''transerrors''} False ex_folds) ex_heap
                           ex_dataset)))
     = last (transerrors (fst (snd (cvte_call ex_K (ex_engine {''transerrors''} False ex_folds)
                                      ex_heap ex_dataset)))) \<and>
   transerror (fst (snd (cvte_call ex_K (ex_engine {''transerrors''} False ex_folds) ex_heap
                           ex_dataset)))
     = transerror (ex_engine {''transerrors''} False ex_folds) \<and>
   fst (cvte_call ex_K (ex_engine {} False ex_folds) ex_heap ex_dataset) = Inr 4 \<and>
   transerror (fst (snd (cvte_call ex_K (ex_engine {} False ex_folds) ex_heap ex_dataset)))
     = transerror (ex_engine {} False ex_folds)"
proof -
  let ?on = "ex_engine {''transerrors''} False ex_folds"
  let ?off = "ex_engine {} False ex_folds"
  have v1: "fst (cvte_call ex_K ?on ex_heap ex_dataset) = Inr 14"
    by (simp add: run_defs ex_defs)
  have v2: "fst (cvte_call ex_K ?off ex_heap ex_dataset) = Inr 4"
    by (simp add: run_defs ex_defs)
  have c1: "cvte_call ex_K ?on ex_heap ex_dataset =
      (Inr 14, fst (snd (cvte_call ex_K ?on ex_heap ex_dataset)),
       snd (snd (cvte_call ex_K ?on ex_heap ex_dataset)))"
    using v1 by (metis prod.collapse)
  have c2: "cvte_call ex_K ?off ex_heap ex_dataset =
      (Inr 4, fst (snd (cvte_call ex_K ?off ex_heap ex_dataset)),
       snd (snd (cvte_call ex_K ?off ex_heap ex_dataset)))"
    using v2 by (metis prod.collapse)
  have en: "''transerrors'' \<in> enabled ?on" "''transerrors'' \<notin> enabled ?off"
    by (simp_all add: ex_engine_def)
  have m: "find_lastsplit (last (splitter ?on ex_dataset)) = Inr (Some True)"
    by (simp add: ex_defs)
  have l: "transerrors (fst (snd (cvte_call ex_K ?on ex_heap ex_dataset))) = [1, 0]"
    by (simp add: run_defs ex_defs)
  note t1 = retained_instance [OF c1]
  note t2 = retained_instance [OF c2]
  show ?thesis
    using v1 v2 m l en t1 t2 by blast
qed

subsection \<open>The temporary enablement of the child's states\<close>

lemma overriddenD:
  assumes "overridden a0 n0 E S s"
  shows "transerror (self s) = a0"
    and "te_enabled (terrs (heap s) a0) = E" and "te_stored (terrs (heap s) a0) = S"
    and "transerror_v s = Some a \<Longrightarrow>
           te_enabled (terrs (heap s) a) = E \<and> te_stored (terrs (heap s) a) = S"
  using assms unfolding overridden_def by blast+

lemma call_transerror_states:
  "te_enabled (terrs (snd (call_transerror K a test train h)) b) = te_enabled (terrs h b)"
  "te_stored (terrs (snd (call_transerror K a test train h)) b) = te_stored (terrs h b)"
  by (simp_all add: call_transerror_def Let_def split: sum.splits)

lemma run_the_beast_states:
  "te_enabled (terrs (heap (snd (run_the_beast K split s))) b) = te_enabled (terrs (heap s) b)"
  "te_stored (terrs (heap (snd (run_the_beast K split s))) b) = te_stored (terrs (heap s) b)"
  "transerror_v (snd (run_the_beast K split s)) = transerror_v s"
proof -
  show "te_enabled (terrs (heap (snd (run_the_beast K split s))) b)
          = te_enabled (terrs (heap s) b)"
    using run_the_beast_heap_cases [of K split s] by (auto simp: call_transerror_states)
  show "te_stored (terrs (heap (snd (run_the_beast K split s))) b)
          = te_stored (terrs (heap s) b)"
    using run_the_beast_heap_cases [of K split s] by (auto simp: call_transerror_states)
  show "transerror_v (snd (run_the_beast K split s)) = transerror_v s"
    by (simp add: run_the_beast_def split: option.splits sum.splits prod.splits)
qed

lemma overridden_run_the_beast: "preserves (overridden a0 n0 E S) (run_the_beast K split)"
  by (simp add: preserves_def overridden_def run_the_beast_states run_the_beast_frame)

lemma overridden_select_transerror:
  "preserves (overridden a0 n0 E S) (select_transerror split)"
  unfolding preserves_def
proof (intro allI impI)
  fix s :: "('a, 'b, 'c, 'd, 'e, 'f) frame"
  assume o: "overridden a0 n0 E S s"
  note d = overriddenD [OF o]
  show "overridden a0 n0 E S (snd (select_transerror split s))"
  proof (cases "isEnabled ''transerrors'' (self s)")
    case False
    then show ?thesis using o by (simp add: select_transerror_def overridden_def)
  next
    case True
    show ?thesis
    proof (cases "find_lastsplit split")
      case (Inl err)
      then show ?thesis using o True by (simp add: select_transerror_def)
    next
      case (Inr m)
      show ?thesis
      proof (cases "m = Some True")
        case True
        then show ?thesis
          using o Inr \<open>isEnabled ''transerrors'' (self s)\<close>
          by (simp add: select_transerror_def overridden_def)
      next
        case False
        have "snd (select_transerror split s) =
                s\<lparr>heap := snd (deepcopy a0 (heap s)), transerror_v := Some (next_terr (heap s))\<rparr>"
          using Inr False \<open>isEnabled ''transerrors'' (self s)\<close> d(1)
          by (simp add: select_transerror_def deepcopy_def Let_def)
        then show ?thesis
          using o d(2,3) unfolding overridden_def
          by (auto simp: deepcopy_def Let_def)
      qed
    qed
  qed
qed

lemma overridden_steps:
  "preserves (overridden a0 n0 E S) (store_split split)"
  "preserves (overridden a0 n0 E S) (bind_testdataset split)"
  "preserves (overridden a0 n0 E S) unbind_testdataset"
  "preserves (overridden a0 n0 E S) (harvest_locals split)"
  "preserves (overridden a0 n0 E S) store_transerror"
  "preserves (overridden a0 n0 E S) pull_samples_error"
  "preserves (overridden a0 n0 E S) (pull_confusion K)"
  "preserves (overridden a0 n0 E S) (pull_training_confusion K)"
  "preserves (overridden a0 n0 E S) append_result"
  by (simp_all add: preserves_def overridden_def body_defs
        split: sum.splits option.splits prod.splits)

lemma overridden_fold_body: "preserves (overridden a0 n0 E S) (fold_body K split)"
  by (rule preserves_fold_body)
     (rule overridden_steps overridden_select_transerror overridden_run_the_beast)+

lemma overridden_prologue:
  "overridden (transerror e) (next_terr h)
     (te_enabled (terrs h (transerror e)) \<union> set (terr_enable (prologue K ds e h)))
     (if terr_enable (prologue K ds e h) = [] then te_stored (terrs h (transerror e))
      else te_enabled (terrs h (transerror e)) # te_stored (terrs h (transerror e)))
     (prologue K ds e h)"
  by (auto simp: overridden_def prologue_def Let_def changeTemporarily_def)

lemma overridden_run_folds:
  assumes "overridden a0 n0 E S s" "run_folds K folds s = (r, s')"
  shows "overridden a0 n0 E S s'"
  by (rule preservesD [OF preserves_run_folds [OF overridden_fold_body] assms])

lemma terr_enable_run_folds:
  assumes "run_folds K folds s = (r, s')"
  shows "terr_enable s' = terr_enable s"
proof -
  have "frame_cfg s' = frame_cfg s" using cfg_run_folds [of K folds s] assms by simp
  then show ?thesis by (simp add: frame_cfg_def)
qed

lemma after_loop_restores:
  fixes s0 :: "('r, 'm, 'd, 'c, 'h, 'v) frame"
  assumes o: "overridden a0 n0 E S s0"
    and a: "seq rebind_transerror (seq restore_states store_results) s0 = (r, s1)"
    and on: "terr_enable s0 \<noteq> [] \<Longrightarrow> S = E0 # S0"
    and off: "terr_enable s0 = [] \<Longrightarrow> E = E0 \<and> S = S0"
  shows "r = None \<Longrightarrow>
           te_enabled (terrs (heap s1) (transerror (self s1))) = E0 \<and>
           te_stored (terrs (heap s1) (transerror (self s1))) = S0"
    and "r \<noteq> None \<Longrightarrow>
           transerror (self s1) = a0 \<and> te_enabled (terrs (heap s1) a0) = E \<and>
           te_stored (terrs (heap s1) a0) = S"
proof -
  note d = overriddenD [OF o]
  show "te_enabled (terrs (heap s1) (transerror (self s1))) = E0 \<and>
        te_stored (terrs (heap s1) (transerror (self s1))) = S0" if "r = None"
  proof -
    from a that obtain sa where ra: "rebind_transerror s0 = (None, sa)"
      and rest: "seq restore_states store_results sa = (None, s1)"
      by (auto elim: seq_NoneE)
    from rest obtain sb where rb: "restore_states sa = (None, sb)"
      and rc: "store_results sb = (None, s1)"
      by (rule seq_NoneE)
    from ra obtain b where b: "transerror_v s0 = Some b"
      "sa = s0\<lparr>self := (self s0)\<lparr>transerror := b\<rparr>\<rparr>"
      by (auto simp: rebind_transerror_def split: option.splits)
    note db = d(4) [OF b(1)]
    have sb: "te_enabled (terrs (heap sb) b) = E0 \<and> te_stored (terrs (heap sb) b) = S0 \<and>
              transerror (self sb) = b"
    proof (cases "terr_enable s0 = []")
      case True
      have "restore_states sa = (None, sa)"
        using True by (simp add: restore_states_def b(2))
      then have e: "sb = sa" using rb by simp
      show ?thesis unfolding e b(2) using db off [OF True] by simp
    next
      case False
      have rs: "resetEnabledTemporarily (terrs (heap s0) b) =
                  Inr ((terrs (heap s0) b)\<lparr>te_enabled := E0, te_stored := S0\<rparr>)"
        using db on [OF False] by (simp add: resetEnabledTemporarily_def)
      have "restore_states sa =
              (None, sa\<lparr>heap := (heap sa)\<lparr>terrs := (terrs (heap sa))
                 (b := (terrs (heap s0) b)\<lparr>te_enabled := E0, te_stored := S0\<rparr>)\<rparr>\<rparr>)"
        using False rs by (simp add: restore_states_def b(2))
      then have e: "sb = sa\<lparr>heap := (heap sa)\<lparr>terrs := (terrs (heap sa))
                 (b := (terrs (heap s0) b)\<lparr>te_enabled := E0, te_stored := S0\<rparr>)\<rparr>\<rparr>"
        using rb by simp
      show ?thesis unfolding e b(2) by simp
    qed
    have "heap s1 = heap sb" "transerror (self s1) = transerror (self sb)"
      using rc by (auto simp: store_results_def split: if_splits)
    then show ?thesis using sb by simp
  qed
  show "transerror (self s1) = a0 \<and> te_enabled (terrs (heap s1) a0) = E \<and>
        te_stored (terrs (heap s1) a0) = S" if "r \<noteq> None"
  proof -
    from that obtain err where r: "r = Some err" by (cases r) simp_all
    from a [unfolded r] show ?thesis
    proof (rule seq_SomeE)
      assume "rebind_transerror s0 = (Some err, s1)"
      then have "s1 = s0" by (auto simp: rebind_transerror_def split: option.splits)
      then show ?thesis using d by simp
    next
      fix sa
      assume ra: "rebind_transerror s0 = (None, sa)"
        and rest: "seq restore_states store_results sa = (Some err, s1)"
      from ra obtain b where b: "transerror_v s0 = Some b"
        "sa = s0\<lparr>self := (self s0)\<lparr>transerror := b\<rparr>\<rparr>"
        by (auto simp: rebind_transerror_def split: option.splits)
      note db = d(4) [OF b(1)]
      have nr: "fst (restore_states sa) = None"
      proof (cases "terr_enable s0 = []")
        case True
        then show ?thesis using b by (simp add: restore_states_def)
      next
        case False
        then show ?thesis
          using b db on by (simp add: restore_states_def resetEnabledTemporarily_def)
      qed
      have "fst (store_results (snd (restore_states sa))) = None"
        by (simp add: store_results_def)
      then have "fst (seq restore_states store_results sa) = None"
        using nr by (cases "restore_states sa") (simp add: seq_def)
      then show ?thesis using rest by simp
    qed
  qed
qed

end
